theory Spec2Isabelle
  imports Main "HOL-Library.Char_ord" "HOL-Library.List_Lexorder"
begin

section \<open>Values, rows and the query service\<close>

text \<open>
  The program reads rows from a database cursor (a \<open>DictCursor\<close>: every row is a
  dictionary from column names to values).  A column value is a byte string, a text
  string, \<open>None\<close> or an integer.  Python's \<open>str\<close> is modelled by \<open>string\<close>, and a
  byte string by a list of 8-bit characters.  The codec \<open>bytes.decode("utf-8")\<close> is a
  library function: it is a parameter \<open>utf8\<close> of the model, \<open>None\<close> standing for
  \<open>UnicodeDecodeError\<close>.
\<close>

type_synonym bytes = "char list"

datatype pyval = PyBytes bytes | PyStr string | PyNone | PyInt int

type_synonym row = "string \<rightharpoonup> pyval"

text \<open>
  What a submitted query does.  \<open>ExecuteError\<close>: \<open>cursor.execute\<close> or \<open>conn.commit\<close>
  raises.  \<open>FetchError\<close>: \<open>cursor.fetchall\<close> raises.  \<open>Rows\<close>: the rows fetched.
  Whether \<open>_get_connection\<close> returns a connection (and \<open>conn.cursor\<close> a cursor) is a
  separate parameter of the methods below: the connection is opened before the query
  is submitted.
\<close>

datatype db_reply = ExecuteError | FetchError | Rows "row list"

text \<open>
  The exceptions: from \<open>_get_connection\<close>, from \<open>execute\<close> or \<open>commit\<close>, from
  \<open>fetchall\<close>, and the \<open>TypeError\<close> and \<open>ValueError\<close> of \<open>random.sample\<close>.
\<close>

datatype error = ConnectFailed | ExecuteFailed | FetchFailed | SampleTypeError | SampleValueError

section \<open>Strings\<close>

text \<open>\<open>s.replace(old, new)\<close> for one-character \<open>old\<close> and \<open>new\<close>.\<close>

definition str_replace :: "char \<Rightarrow> char \<Rightarrow> string \<Rightarrow> string" where
  "str_replace old new s = map (\<lambda>c. if c = old then new else c) s"

text \<open>\<open>sep.join(xs)\<close>.\<close>

fun join :: "string \<Rightarrow> string list \<Rightarrow> string" where
  "join sep [] = []"
| "join sep [x] = x"
| "join sep (x # y # ys) = x @ sep @ join sep (y # ys)"

text \<open>\<open>"%d" % n\<close> and \<open>"%02d" % n\<close> for a natural number \<open>n\<close>.\<close>

definition digit_char :: "nat \<Rightarrow> char" where
  "digit_char d = ''0123456789'' ! d"

fun fmt_d :: "nat \<Rightarrow> string" where
  "fmt_d n = (if n < 10 then [digit_char n] else fmt_d (n div 10) @ [digit_char (n mod 10)])"

definition fmt_02d :: "nat \<Rightarrow> string" where
  "fmt_02d n = (let s = fmt_d n in replicate (2 - length s) CHR ''0'' @ s)"

section \<open>Constants of the class\<close>

text \<open>
  \<open>generate_iabot_cats\<close> (lines 25--30).  The letter u-umlaut of the source is the
  code point \<open>0xFC\<close>.
\<close>

definition generate_iabot_cats :: "string list" where
  "generate_iabot_cats =
     (let archive = [''Wikipedia:Defekte_Weblinks/Ungepr'' @ [CHR 0xFC] @ ''fte_Archivlinks_201''
                       @ fmt_d y @ ''-'' @ fmt_02d m. m \<leftarrow> [4..<13], y \<leftarrow> [8, 9]];
          dead = [''Wikipedia:Defekte_Weblinks/Ungepr'' @ [CHR 0xFC] @ ''fte_Botmarkierungen_201''
                       @ fmt_d y @ ''-'' @ fmt_02d m. m \<leftarrow> [4..<13], y \<leftarrow> [8, 9]]
      in archive @ dead)"

definition MAX_DEPTH :: nat where
  "MAX_DEPTH = 3"

definition TAGS :: "string list" where
  "TAGS = [[CHR 0xDC] @ ''berarbeiten'', ''L'' @ [CHR 0xFC] @ ''ckenhaft'', ''Veraltet'',
           ''Belege_fehlen'', ''Allgemeinverst'' @ [CHR 0xE4] @ ''ndlichkeit'']"

definition NUM :: nat where
  "NUM = 10"

definition IABOT_CATS :: "string list" where
  "IABOT_CATS = generate_iabot_cats"

section \<open>The aggregation map\<close>

text \<open>
  The dictionary \<open>articles\<close> maps a page to the list of its problem labels.  It is an
  association list in insertion order, one entry per key; \<open>articles.items()\<close> is the
  list itself.  A label is a column value: the decoded text, or the raw value of a
  column that has no \<open>decode\<close>.
\<close>

type_synonym articles = "(string \<times> pyval list) list"

text \<open>
  Lines 200--203: \<open>articles[page].append(problem)\<close>, and on \<open>KeyError\<close>
  \<open>articles[page] = [problem]\<close>.
\<close>

fun dict_append :: "string \<Rightarrow> pyval \<Rightarrow> articles \<Rightarrow> articles" where
  "dict_append page problem [] = [(page, [problem])]"
| "dict_append page problem ((p, ps) # rest) =
     (if p = page then (p, ps @ [problem]) # rest
      else (p, ps) # dict_append page problem rest)"

text \<open>
  Lines 190--199, one row: \<open>None\<close> when the row is logged and skipped (\<open>continue\<close>).
  A missing column is a \<open>KeyError\<close>, a page title without \<open>decode\<close> an
  \<open>AttributeError\<close>, bytes that do not decode a \<open>UnicodeDecodeError\<close>: all caught by
  \<open>except Exception\<close>.  Only for \<open>tl_title\<close> is the \<open>AttributeError\<close> caught first, and
  the raw value kept.
\<close>

definition extract_row :: "(bytes \<Rightarrow> string option) \<Rightarrow> row \<Rightarrow> (string \<times> pyval) option" where
  "extract_row utf8 item =
     (case item ''page_title'' of
        Some (PyBytes b) \<Rightarrow>
          (case utf8 b of
             None \<Rightarrow> None
           | Some page \<Rightarrow>
               (case item ''tl_title'' of
                  None \<Rightarrow> None
                | Some (PyBytes t) \<Rightarrow>
                    (case utf8 t of
                       None \<Rightarrow> None
                     | Some s \<Rightarrow> Some (page, PyStr (str_replace CHR ''_'' CHR '' '' s)))
                | Some v \<Rightarrow> Some (page, v)))
      | _ \<Rightarrow> None)"

text \<open>\<open>_extract_problems\<close> (lines 187--204).\<close>

fun extract_problems :: "(bytes \<Rightarrow> string option) \<Rightarrow> row list \<Rightarrow> articles \<Rightarrow> articles" where
  "extract_problems utf8 [] articles = articles"
| "extract_problems utf8 (item # result) articles =
     (case extract_row utf8 item of
        None \<Rightarrow> extract_problems utf8 result articles
      | Some (page, problem) \<Rightarrow> extract_problems utf8 result (dict_append page problem articles))"

section \<open>The sampler\<close>

text \<open>
  Two library calls do not fix their result.  \<open>list(set(xs))\<close> lists the distinct
  elements of \<open>xs\<close> in an order of the implementation's choice.
  \<open>random.sample(population, k)\<close> draws \<open>k\<close> entries at \<open>k\<close> different positions of
  the population; the population handed to it (line 180) is the item view of the
  dictionary, not a list.  Up to Python 3.10 the library turns such a view into a
  tuple and draws from it; from Python 3.11 on it accepts sequences only and raises
  \<open>TypeError\<close>.  Both calls are parameters of the model (\<open>sample\<close>, \<open>list_set\<close>);
  \<open>sample\<close> gives the exception or the entries drawn, and the predicates below say
  what the library promises of a result.
\<close>

primrec selection_of :: "'a list \<Rightarrow> 'a list \<Rightarrow> bool" where
  "selection_of [] population = True"
| "selection_of (y # ys) population = (y \<in> set population \<and> selection_of ys (remove1 y population))"

definition sample_ok :: "'a list \<Rightarrow> nat \<Rightarrow> 'a list \<Rightarrow> bool" where
  "sample_ok population k result = (length result = k \<and> selection_of result population)"

definition list_set_ok :: "'a list \<Rightarrow> 'a list \<Rightarrow> bool" where
  "list_set_ok xs ys = (distinct ys \<and> set ys = set xs)"

record page_result =
  page :: string
  problems :: "pyval list"

text \<open>
  Lines 176--183 of \<open>_find_tagged_articles\<close>: the truncation flag, the sample, and the
  result list with each page's labels passed through \<open>list(set(problems))\<close>.  An
  exception of \<open>random.sample\<close> leaves the method.
\<close>

definition finalize ::
  "(articles \<Rightarrow> nat \<Rightarrow> error + articles) \<Rightarrow> (pyval list \<Rightarrow> pyval list) \<Rightarrow> articles
     \<Rightarrow> error + page_result list \<times> bool" where
  "finalize sample list_set articles =
     (let more = length articles > NUM in
      if more then
        (case sample articles NUM of
           Inl e \<Rightarrow> Inl e
         | Inr articles' \<Rightarrow>
             Inr (map (\<lambda>(p, ps). \<lparr>page = p, problems = list_set ps\<rparr>) articles', more))
      else Inr (map (\<lambda>(p, ps). \<lparr>page = p, problems = list_set ps\<rparr>) articles, more))"

text \<open>
  \<open>_find_tagged_articles\<close> (lines 154--185).  \<open>connection\<close> says whether
  \<open>_get_connection\<close> (line 156) returns a connection; \<open>articles_query\<close> and
  \<open>iabot_query\<close> are the two queries, given the concatenated categories and the tag
  list or the catalog.  Nothing here is caught: whatever raises leaves the method.
\<close>

definition find_tagged_articles ::
  "bool \<Rightarrow> (string \<Rightarrow> string list \<Rightarrow> db_reply) \<Rightarrow> (string \<Rightarrow> string list \<Rightarrow> db_reply)
     \<Rightarrow> (bytes \<Rightarrow> string option) \<Rightarrow> (articles \<Rightarrow> nat \<Rightarrow> error + articles)
     \<Rightarrow> (pyval list \<Rightarrow> pyval list) \<Rightarrow> string list \<Rightarrow> error + page_result list \<times> bool" where
  "find_tagged_articles connection articles_query iabot_query utf8 sample list_set categories =
     (if \<not> connection then Inl ConnectFailed
      else
        (let categories_concat = join ''|'' categories in
         case articles_query categories_concat TAGS of
           ExecuteError \<Rightarrow> Inl ExecuteFailed
         | FetchError \<Rightarrow> Inl FetchFailed
         | Rows result1 \<Rightarrow>
             (let articles = extract_problems utf8 result1 [] in
              case iabot_query categories_concat IABOT_CATS of
                ExecuteError \<Rightarrow> Inl ExecuteFailed
              | FetchError \<Rightarrow> Inl FetchFailed
              | Rows result2 \<Rightarrow>
                  finalize sample list_set (extract_problems utf8 result2 articles))))"

section \<open>The subtree expansion\<close>

text \<open>
  The state of the expansion: the set \<open>tree\<close> that \<open>_find_all_subcategories\<close> updates
  in place; the list \<open>queried\<close> of the arguments with which the subcategory query was
  submitted (\<open>cursor.execute\<close> called), oldest first, as a mock of the service records
  them; and the number \<open>logged\<close> of calls of \<open>self.logger.error\<close>.
\<close>

record expansion =
  tree :: "string set"
  queried :: "string list list"
  logged :: nat

text \<open>
  Lines 141--147: the titles of the fetched rows.  One row that has no \<open>page_title\<close>,
  or whose title does not decode, makes the whole comprehension raise; that and a
  \<open>fetchall\<close> that raises are caught and logged, and the list is empty.
\<close>

definition subcategory_title :: "(bytes \<Rightarrow> string option) \<Rightarrow> row \<Rightarrow> string option" where
  "subcategory_title utf8 item =
     (case item ''page_title'' of Some (PyBytes b) \<Rightarrow> utf8 b | _ \<Rightarrow> None)"

text \<open>
  \<open>_find_all_subcategories\<close> (lines 126--152).  \<open>get_connection depth\<close> says whether
  \<open>_get_connection\<close> (line 135) returns a connection in the call of that depth.  The
  result is the exception that left the method, if any, and the state.
\<close>

function find_all_subcategories ::
  "(nat \<Rightarrow> bool) \<Rightarrow> (string list \<Rightarrow> db_reply) \<Rightarrow> (bytes \<Rightarrow> string option) \<Rightarrow> string list
     \<Rightarrow> expansion \<Rightarrow> nat \<Rightarrow> error option \<times> expansion" where
  "find_all_subcategories get_connection subcategory_query utf8 categories st depth =
     (if depth \<ge> MAX_DEPTH then (None, st)
      else
        (let categories' = filter (\<lambda>cat. CHR '':'' \<notin> set cat) categories in
         if categories' = [] then (None, st)
         else if \<not> get_connection depth then (Some ConnectFailed, st)
         else
           (let st' = st\<lparr>queried := queried st @ [categories']\<rparr> in
            case subcategory_query categories' of
              ExecuteError \<Rightarrow> (Some ExecuteFailed, st')
            | FetchError \<Rightarrow>
                find_all_subcategories get_connection subcategory_query utf8 []
                  (st'\<lparr>logged := logged st' + 1\<rparr>) (depth + 1)
            | Rows rows \<Rightarrow>
                (case those (map (subcategory_title utf8) rows) of
                   None \<Rightarrow>
                     find_all_subcategories get_connection subcategory_query utf8 []
                       (st'\<lparr>logged := logged st' + 1\<rparr>) (depth + 1)
                 | Some subcategories \<Rightarrow>
                     find_all_subcategories get_connection subcategory_query utf8 subcategories
                       (st'\<lparr>tree := tree st' \<union> set subcategories\<rparr>) (depth + 1)))))"
  by pat_completeness auto
termination
  by (relation "measure (\<lambda>(get_connection, subcategory_query, utf8, categories, st, depth).
        MAX_DEPTH - depth)") auto

declare find_all_subcategories.simps [simp del]

section \<open>The request\<close>

text \<open>
  Lines 122--123 of \<open>find_articles\<close>: the set seeded with the normalised name, and the
  expansion started on the list \<open>[category]\<close>.
\<close>

definition expand_category ::
  "(nat \<Rightarrow> bool) \<Rightarrow> (string list \<Rightarrow> db_reply) \<Rightarrow> (bytes \<Rightarrow> string option) \<Rightarrow> string
     \<Rightarrow> error option \<times> expansion" where
  "expand_category get_connection subcategory_query utf8 category =
     find_all_subcategories get_connection subcategory_query utf8 [category]
       \<lparr>tree = {str_replace CHR '' '' CHR ''_'' category}, queried = [], logged = 0\<rparr> 0"

text \<open>
  \<open>find_articles\<close> (lines 115--124).  \<open>list_tree\<close> is \<open>list(tree)\<close>, whose order is the
  implementation's choice; \<open>connection\<close> is the connection of
  \<open>_find_tagged_articles\<close>.
\<close>

definition find_articles ::
  "(nat \<Rightarrow> bool) \<Rightarrow> (string list \<Rightarrow> db_reply) \<Rightarrow> bool \<Rightarrow> (string \<Rightarrow> string list \<Rightarrow> db_reply)
     \<Rightarrow> (string \<Rightarrow> string list \<Rightarrow> db_reply) \<Rightarrow> (bytes \<Rightarrow> string option)
     \<Rightarrow> (articles \<Rightarrow> nat \<Rightarrow> error + articles) \<Rightarrow> (pyval list \<Rightarrow> pyval list)
     \<Rightarrow> (string set \<Rightarrow> string list) \<Rightarrow> string \<Rightarrow> error + page_result list \<times> bool" where
  "find_articles get_connection subcategory_query connection articles_query iabot_query utf8
       sample list_set list_tree category =
     (case expand_category get_connection subcategory_query utf8 category of
        (Some e, st) \<Rightarrow> Inl e
      | (None, st) \<Rightarrow>
          find_tagged_articles connection articles_query iabot_query utf8 sample list_set
            (list_tree (tree st)))"

section \<open>Example data and the course of an expansion\<close>

text \<open>
  Rows as the cursor returns them: a row of the article queries (title and label), and
  a row of the subcategory query (title only).  The examples decode with \<open>Some\<close>, take
  the first \<open>k\<close> entries as the sample (\<open>ValueError\<close> when there are fewer, as the
  library has it), list a set of labels with \<open>remdups\<close> and the category set in sorted
  order.
\<close>

definition row_of :: "string \<Rightarrow> pyval \<Rightarrow> row" where
  "row_of title label = [''page_title'' \<mapsto> PyBytes title, ''tl_title'' \<mapsto> label]"

definition title_row :: "string \<Rightarrow> row" where
  "title_row title = [''page_title'' \<mapsto> PyBytes title]"

definition first_k :: "articles \<Rightarrow> nat \<Rightarrow> error + articles" where
  "first_k population k =
     (if k \<le> length population then Inr (take k population) else Inl SampleValueError)"

definition eleven_rows :: "row list" where
  "eleven_rows = map (\<lambda>p. row_of p (PyBytes ''Veraltet''))
     [''a'', ''b'', ''c'', ''d'', ''e'', ''f'', ''g'', ''h'', ''i'', ''j'', ''k'']"

text \<open>
  The subcategories a level takes from the reply to its query: the decoded titles of
  the rows, and none when the fetch or a title fails (or the query raised).
\<close>

definition reply_subcategories :: "(bytes \<Rightarrow> string option) \<Rightarrow> db_reply \<Rightarrow> string list" where
  "reply_subcategories utf8 reply =
     (case reply of
        Rows rows \<Rightarrow> (case those (map (subcategory_title utf8) rows) of None \<Rightarrow> [] | Some subs \<Rightarrow> subs)
      | _ \<Rightarrow> [])"

text \<open>Whether the fetch of a reply, or the decoding of one of its titles, fails.\<close>

definition fetch_fails :: "(bytes \<Rightarrow> string option) \<Rightarrow> db_reply \<Rightarrow> bool" where
  "fetch_fails utf8 reply =
     (case reply of
        Rows rows \<Rightarrow> those (map (subcategory_title utf8) rows) = None
      | FetchError \<Rightarrow> True
      | ExecuteError \<Rightarrow> False)"

text \<open>
  The frontier of the level \<open>k\<close> levels below a call of depth \<open>depth\<close> on \<open>cats\<close>: the
  colon-free part of \<open>cats\<close> for \<open>k = 0\<close>, and below that the frontier reached through
  the reply to the level's own query.  There is none when a level on the way has an
  empty frontier, is at the depth bound, gets no connection or has its query raise.
\<close>

fun frontier_at ::
  "(nat \<Rightarrow> bool) \<Rightarrow> (string list \<Rightarrow> db_reply) \<Rightarrow> (bytes \<Rightarrow> string option) \<Rightarrow> string list
     \<Rightarrow> nat \<Rightarrow> nat \<Rightarrow> string list option" where
  "frontier_at connect subq utf8 cats depth 0 =
     (let f = filter (\<lambda>cat. CHR '':'' \<notin> set cat) cats in
      if depth \<ge> MAX_DEPTH \<or> f = [] then None else Some f)"
| "frontier_at connect subq utf8 cats depth (Suc k) =
     (let f = filter (\<lambda>cat. CHR '':'' \<notin> set cat) cats in
      if depth \<ge> MAX_DEPTH \<or> f = [] \<or> \<not> connect depth \<or> subq f = ExecuteError then None
      else frontier_at connect subq utf8 (reply_subcategories utf8 (subq f)) (Suc depth) k)"

text \<open>
  What the list \<open>qs\<close> of frontiers submitted by a call of depth \<open>depth\<close> on \<open>cats\<close> looks
  like.  No frontier is empty or holds a name with a colon, and there are no more than
  levels left.  The first is the colon-free part of \<open>cats\<close>, and it is submitted when
  it is not empty, the depth bound is not reached and the connection opens.  Each
  later one is the colon-free part of the subcategories in the reply to the one
  before, and it is submitted under the same three conditions.
\<close>

definition query_chain ::
  "(nat \<Rightarrow> bool) \<Rightarrow> (string list \<Rightarrow> db_reply) \<Rightarrow> (bytes \<Rightarrow> string option) \<Rightarrow> string list \<Rightarrow> nat
     \<Rightarrow> string list list \<Rightarrow> bool" where
  "query_chain connect subq utf8 cats depth qs =
     (length qs \<le> MAX_DEPTH - depth
      \<and> (\<forall>q \<in> set qs. q \<noteq> [] \<and> (\<forall>c \<in> set q. CHR '':'' \<notin> set c))
      \<and> (qs \<noteq> [] \<longrightarrow> hd qs = filter (\<lambda>cat. CHR '':'' \<notin> set cat) cats)
      \<and> (depth < MAX_DEPTH \<and> filter (\<lambda>cat. CHR '':'' \<notin> set cat) cats \<noteq> [] \<and> connect depth
           \<longrightarrow> qs \<noteq> [])
      \<and> (\<forall>i. Suc i < length qs \<longrightarrow>
            qs ! Suc i = filter (\<lambda>cat. CHR '':'' \<notin> set cat) (reply_subcategories utf8 (subq (qs ! i))))
      \<and> (\<forall>i. i < length qs \<and> depth + Suc i < MAX_DEPTH \<and> connect (depth + Suc i)
              \<and> filter (\<lambda>cat. CHR '':'' \<notin> set cat) (reply_subcategories utf8 (subq (qs ! i))) \<noteq> []
           \<longrightarrow> Suc i < length qs))"

section \<open>The catalog\<close>

text \<open>
  Claim C5, as the code has it: \<open>generate_iabot_cats\<close> is a constant list of 36 distinct
  names of the form \<open><root>/<type>_<year>-<month>\<close>, for the two entry types, the two
  years 2018 and 2019 and the nine months 04 to 12 (April to December), the months
  outermost and the years innermost within each type.
\<close>

theorem generate_iabot_cats_catalog:
  "generate_iabot_cats =
     [''Wikipedia:Defekte_Weblinks'' @ ''/'' @ typ @ ''_'' @ year @ ''-'' @ month.
        typ \<leftarrow> [''Ungepr'' @ [CHR 0xFC] @ ''fte_Archivlinks'',
                ''Ungepr'' @ [CHR 0xFC] @ ''fte_Botmarkierungen''],
        month \<leftarrow> [''04'', ''05'', ''06'', ''07'', ''08'', ''09'', ''10'', ''11'', ''12''],
        year \<leftarrow> [''2018'', ''2019'']]
   \<and> length generate_iabot_cats = 2 * 9 * 2
   \<and> distinct generate_iabot_cats"
  by (simp add: generate_iabot_cats_def upt_rec fmt_02d_def digit_char_def)

text \<open>
  Claim C5 as stated fails: the catalog does not span all twelve months.  It has no
  entry for January 2018, and 36 entries where two types, two years and twelve months
  would give 48.
\<close>

theorem generate_iabot_cats_not_twelve_months:
  "''Wikipedia:Defekte_Weblinks/Ungepr'' @ [CHR 0xFC] @ ''fte_Archivlinks_2018-01''
      \<notin> set generate_iabot_cats
   \<and> length generate_iabot_cats \<noteq> 2 * 2 * 12"
  by (simp add: generate_iabot_cats_def upt_rec fmt_02d_def digit_char_def)

section \<open>Properties of the aggregation map\<close>

text \<open>Appending a label keeps the keys in place and adds a new key at the end.\<close>

lemma dict_append_keys:
  "map fst (dict_append p l m) = (if p \<in> fst ` set m then map fst m else map fst m @ [p])"
  by (induction m) force+

lemma dict_append_distinct:
  "distinct (map fst m) \<Longrightarrow> distinct (map fst (dict_append p l m))"
  by (simp add: dict_append_keys)

lemma map_of_dict_append:
  "map_of (dict_append p l m) =
     (map_of m)(p \<mapsto> (case map_of m p of None \<Rightarrow> [l] | Some ls \<Rightarrow> ls @ [l]))"
  by (induction m) (auto simp: fun_eq_iff)

lemma extract_problems_distinct:
  "distinct (map fst m) \<Longrightarrow> distinct (map fst (extract_problems utf8 rows m))"
  by (induction rows arbitrary: m) (auto split: option.splits simp: dict_append_distinct)

lemma extract_problems_keys_prefix:
  "\<exists>rest. map fst (extract_problems utf8 rows m) = map fst m @ rest"
proof (induction rows arbitrary: m)
  case Nil
  show ?case by simp
next
  case (Cons item rows)
  show ?case
  proof (cases "extract_row utf8 item")
    case None
    with Cons.IH [of m] show ?thesis by simp
  next
    case (Some pl)
    obtain p l where pl: "pl = (p, l)" by (cases pl)
    from Cons.IH [of "dict_append p l m"] obtain rest
      where "map fst (extract_problems utf8 rows (dict_append p l m)) = map fst (dict_append p l m) @ rest"
      by blast
    then show ?thesis using Some pl by (simp add: dict_append_keys)
  qed
qed

lemma extract_problems_extends_labels:
  "map_of m p = Some ls \<Longrightarrow> \<exists>new. map_of (extract_problems utf8 rows m) p = Some (ls @ new)"
proof (induction rows arbitrary: m ls)
  case Nil
  then show ?case by simp
next
  case (Cons item rows)
  show ?case
  proof (cases "extract_row utf8 item")
    case None
    with Cons show ?thesis by simp
  next
    case (Some ql)
    obtain q l where ql: "ql = (q, l)" by (cases ql)
    show ?thesis
    proof (cases "q = p")
      case True
      have "map_of (dict_append q l m) p = Some (ls @ [l])"
        using Cons.prems True by (simp add: map_of_dict_append)
      from Cons.IH [OF this] obtain new
        where "map_of (extract_problems utf8 rows (dict_append q l m)) p = Some ((ls @ [l]) @ new)"
        by blast
      then have "map_of (extract_problems utf8 (item # rows) m) p = Some (ls @ (l # new))"
        using Some ql by simp
      then show ?thesis by blast
    next
      case False
      have "map_of (dict_append q l m) p = Some ls"
        using Cons.prems False by (simp add: map_of_dict_append)
      from Cons.IH [OF this] show ?thesis using Some ql by simp
    qed
  qed
qed

lemma extract_problems_frame:
  "\<forall>item \<in> set rows. \<forall>l. extract_row utf8 item \<noteq> Some (p, l) \<Longrightarrow>
   map_of (extract_problems utf8 rows m) p = map_of m p"
proof (induction rows arbitrary: m)
  case Nil
  show ?case by simp
next
  case (Cons item rows)
  show ?case
  proof (cases "extract_row utf8 item")
    case None
    with Cons show ?thesis by simp
  next
    case (Some ql)
    obtain q l where ql: "ql = (q, l)" by (cases ql)
    with Some Cons.prems have "q \<noteq> p" by auto
    then have "map_of (dict_append q l m) p = map_of m p"
      by (simp add: map_of_dict_append)
    moreover have "map_of (extract_problems utf8 rows (dict_append q l m)) p = map_of (dict_append q l m) p"
      using Cons.prems by (intro Cons.IH) simp
    ultimately show ?thesis using Some ql by simp
  qed
qed

text \<open>Rows of the example data, extracted.\<close>

lemma extract_row_of [simp]:
  "extract_row Some (row_of title (PyBytes l)) = Some (title, PyStr (str_replace CHR ''_'' CHR '' '' l))"
  "extract_row Some (row_of title (PyStr s)) = Some (title, PyStr s)"
  by (simp_all add: extract_row_def row_of_def)


text \<open>
  Claim C10: \<open>_extract_problems\<close> only extends the map.  A page that has an entry
  keeps all its labels, in order, with the new ones appended; a page for which no row
  yields a label (so every page that no row mentions) has the entry it had, or none;
  and the pages already in the map stay where they are, new pages following them.
\<close>

theorem extract_problems_only_extends:
  "(\<forall>p labels. map_of articles p = Some labels \<longrightarrow>
       (\<exists>new. map_of (extract_problems utf8 result articles) p = Some (labels @ new)))
   \<and> (\<forall>p. (\<forall>item \<in> set result. \<forall>label. extract_row utf8 item \<noteq> Some (p, label)) \<longrightarrow>
       map_of (extract_problems utf8 result articles) p = map_of articles p)
   \<and> (\<exists>rest. map fst (extract_problems utf8 result articles) = map fst articles @ rest)"
  using extract_problems_extends_labels [of articles _ _ utf8 result]
    extract_problems_frame [of result utf8 _ articles]
    extract_problems_keys_prefix [of utf8 result articles]
  by blast

text \<open>
  Claim C10 on an example: page \<open>A\<close> has the labels \<open>x\<close>, \<open>y\<close>, page \<open>B\<close> the label
  \<open>z\<close>; two rows name \<open>A\<close> and a new page \<open>C\<close>.
\<close>

theorem extract_problems_only_extends_witness:
  "map_of [(''A'', [PyStr ''x'', PyStr ''y'']), (''B'', [PyStr ''z''])] ''A'' = Some [PyStr ''x'', PyStr ''y'']
   \<and> (\<exists>new. map_of (extract_problems Some [row_of ''A'' (PyBytes ''x''), row_of ''C'' (PyBytes ''w'')]
          [(''A'', [PyStr ''x'', PyStr ''y'']), (''B'', [PyStr ''z''])]) ''A''
        = Some ([PyStr ''x'', PyStr ''y''] @ new))
   \<and> map_of (extract_problems Some [row_of ''A'' (PyBytes ''x''), row_of ''C'' (PyBytes ''w'')]
          [(''A'', [PyStr ''x'', PyStr ''y'']), (''B'', [PyStr ''z''])]) ''B'' = Some [PyStr ''z'']
   \<and> extract_problems Some [row_of ''A'' (PyBytes ''x''), row_of ''C'' (PyBytes ''w'')]
          [(''A'', [PyStr ''x'', PyStr ''y'']), (''B'', [PyStr ''z''])]
       = [(''A'', [PyStr ''x'', PyStr ''y'', PyStr ''x'']), (''B'', [PyStr ''z'']), (''C'', [PyStr ''w''])]"
proof -
  have old: "map_of [(''A'', [PyStr ''x'', PyStr ''y'']), (''B'', [PyStr ''z''])] ''A'' = Some [PyStr ''x'', PyStr ''y'']"
    by simp
  have run: "extract_problems Some [row_of ''A'' (PyBytes ''x''), row_of ''C'' (PyBytes ''w'')]
          [(''A'', [PyStr ''x'', PyStr ''y'']), (''B'', [PyStr ''z''])]
       = [(''A'', [PyStr ''x'', PyStr ''y'', PyStr ''x'']), (''B'', [PyStr ''z'']), (''C'', [PyStr ''w''])]"
    by (simp add: str_replace_def)
  from extract_problems_only_extends
    [of "[(''A'', [PyStr ''x'', PyStr ''y'']), (''B'', [PyStr ''z''])]" Some
        "[row_of ''A'' (PyBytes ''x''), row_of ''C'' (PyBytes ''w'')]"]
  have "\<exists>new. map_of (extract_problems Some [row_of ''A'' (PyBytes ''x''), row_of ''C'' (PyBytes ''w'')]
          [(''A'', [PyStr ''x'', PyStr ''y'']), (''B'', [PyStr ''z''])]) ''A''
        = Some ([PyStr ''x'', PyStr ''y''] @ new)"
    using old by blast
  then show ?thesis using old run by simp
qed

section \<open>Properties of the sampler\<close>

text \<open>
  A selection without replacement lies in the population and keeps keys distinct; the
  first \<open>k\<close> entries are one.
\<close>

lemma selection_of_subset: "selection_of ys pop \<Longrightarrow> set ys \<subseteq> set pop"
proof (induction ys arbitrary: pop)
  case Nil
  show ?case by simp
next
  case (Cons y ys)
  then have "set ys \<subseteq> set (remove1 y pop)" by simp
  also have "\<dots> \<subseteq> set pop" by (rule set_remove1_subset)
  finally show ?case using Cons.prems by simp
qed

lemma distinct_map_remove1:
  "distinct (map f pop) \<Longrightarrow> distinct (map f (remove1 y pop))"
  by (auto simp: distinct_map intro: inj_on_diff)

lemma selection_of_distinct_map:
  "selection_of ys pop \<Longrightarrow> distinct (map f pop) \<Longrightarrow> distinct (map f ys)"
proof (induction ys arbitrary: pop)
  case Nil
  show ?case by simp
next
  case (Cons y ys)
  from Cons.prems have y: "y \<in> set pop" and sel: "selection_of ys (remove1 y pop)" by simp_all
  from Cons.prems have d: "distinct pop" and inj: "inj_on f (set pop)"
    by (simp_all add: distinct_map)
  have rest: "distinct (map f ys)"
    using Cons.IH [OF sel distinct_map_remove1 [OF Cons.prems(2)]] .
  have "set ys \<subseteq> set pop - {y}"
    using selection_of_subset [OF sel] d by simp
  then have "f y \<notin> f ` set ys"
    using inj y by (auto dest: inj_onD)
  with rest show ?case by simp
qed

lemma selection_of_take: "selection_of (take k pop) pop"
proof (induction pop arbitrary: k)
  case Nil
  show ?case by simp
next
  case (Cons x pop)
  show ?case by (cases k) (simp_all add: Cons.IH)
qed

lemma page_of_results:
  "map page (map (\<lambda>(p, ps). \<lparr>page = p, problems = f ps\<rparr>) m) = map fst m"
  by (induction m) auto

text \<open>The final step, by the number of pages.\<close>

lemma finalize_small:
  "length articles \<le> NUM \<Longrightarrow>
   finalize sample list_set articles
     = Inr (map (\<lambda>(p, ps). \<lparr>page = p, problems = list_set ps\<rparr>) articles, False)"
  by (simp add: finalize_def)

lemma finalize_big:
  "length articles > NUM \<Longrightarrow>
   finalize sample list_set articles
     = (case sample articles NUM of
          Inl e \<Rightarrow> Inl e
        | Inr ys \<Rightarrow> Inr (map (\<lambda>(p, ps). \<lparr>page = p, problems = list_set ps\<rparr>) ys, True))"
  by (simp add: finalize_def)

lemma finalize_Inr:
  assumes "finalize sample list_set articles = Inr (results, flag)"
  shows "\<exists>ys. results = map (\<lambda>(p, ps). \<lparr>page = p, problems = list_set ps\<rparr>) ys
           \<and> (if length articles > NUM then sample articles NUM = Inr ys \<and> flag
               else ys = articles \<and> \<not> flag)"
proof (cases "length articles > NUM")
  case True
  with assms show ?thesis by (auto simp: finalize_big split: sum.splits)
next
  case False
  with assms show ?thesis by (auto simp: finalize_small)
qed

lemma find_tagged_articles_Inr:
  assumes "find_tagged_articles connection aq iq utf8 sample list_set categories = Inr res"
  shows "\<exists>r1 r2. connection \<and> aq (join ''|'' categories) TAGS = Rows r1
      \<and> iq (join ''|'' categories) IABOT_CATS = Rows r2
      \<and> finalize sample list_set (extract_problems utf8 r2 (extract_problems utf8 r1 [])) = Inr res"
  using assms by (auto simp: find_tagged_articles_def Let_def split: db_reply.splits if_splits)

lemma find_tagged_articles_rows:
  assumes "connection" and "aq (join ''|'' categories) TAGS = Rows r1"
    and "iq (join ''|'' categories) IABOT_CATS = Rows r2"
  shows "find_tagged_articles connection aq iq utf8 sample list_set categories
     = finalize sample list_set (extract_problems utf8 r2 (extract_problems utf8 r1 []))"
  using assms by (simp add: find_tagged_articles_def)

text \<open>
  Of a population with distinct keys, the selections are the duplicate-free lists of
  its entries; those of length \<open>k\<close> with a given set \<open>S\<close> of \<open>k\<close> keys correspond to the
  orderings of \<open>S\<close>, so there are \<open>k!\<close> of them.
\<close>

lemma selection_of_distinct_iff:
  "distinct pop \<Longrightarrow> selection_of ys pop \<longleftrightarrow> distinct ys \<and> set ys \<subseteq> set pop"
proof (induction ys arbitrary: pop)
  case Nil
  show ?case by simp
next
  case (Cons y ys)
  have "selection_of ys (remove1 y pop) \<longleftrightarrow> distinct ys \<and> set ys \<subseteq> set (remove1 y pop)"
    using Cons.prems by (intro Cons.IH) simp
  then show ?case using Cons.prems by auto
qed

lemma samples_with_pages_card:
  assumes keys: "distinct (map fst articles)"
    and sub: "S \<subseteq> fst ` set articles"
    and card: "card S = k"
  shows "card {ys. sample_ok articles k ys \<and> fst ` set ys = S} = fact k"
proof -
  let ?A = "{ys. sample_ok articles k ys \<and> fst ` set ys = S}"
  let ?B = "{zs. length zs = k \<and> distinct zs \<and> set zs \<subseteq> S}"
  from keys have d: "distinct articles" and inj: "inj_on fst (set articles)"
    by (simp_all add: distinct_map)
  have fin: "finite S" using sub by (rule finite_subset) simp
  have A: "sample_ok articles k ys \<longleftrightarrow> length ys = k \<and> distinct ys \<and> set ys \<subseteq> set articles" for ys
    using d by (auto simp: sample_ok_def selection_of_distinct_iff)
  have inj_map: "inj_on (map fst) ?A"
  proof (rule inj_onI)
    fix ys1 ys2 assume "ys1 \<in> ?A" "ys2 \<in> ?A" and eq: "map fst ys1 = map fst ys2"
    then have "set ys1 \<union> set ys2 \<subseteq> set articles" by (simp add: A)
    with inj have "inj_on fst (set ys1 \<union> set ys2)" by (rule inj_on_subset)
    with eq show "ys1 = ys2" by (rule map_inj_on)
  qed
  have image: "map fst ` ?A = ?B"
  proof (intro equalityI subsetI)
    fix zs assume "zs \<in> map fst ` ?A"
    then obtain ys where ys: "ys \<in> ?A" and zs: "zs = map fst ys" by blast
    from ys have "inj_on fst (set ys)" using inj by (auto simp: A intro: inj_on_subset)
    with ys zs show "zs \<in> ?B" by (simp add: A distinct_map)
  next
    fix zs assume "zs \<in> ?B"
    then have len: "length zs = k" and dz: "distinct zs" and zsub: "set zs \<subseteq> S" by simp_all
    have "card (set zs) = card S" using dz len card by (simp add: distinct_card)
    with fin zsub have set_zs: "set zs = S" by (simp add: card_subset_eq)
    define ys where "ys = map (\<lambda>p. (p, the (map_of articles p))) zs"
    have fst_ys: "map fst ys = zs" by (simp add: ys_def o_def)
    have "(p, the (map_of articles p)) \<in> set articles" if "p \<in> S" for p
    proof -
      from that sub obtain v where "(p, v) \<in> set articles" by auto
      with keys have "map_of articles p = Some v" by simp
      with \<open>(p, v) \<in> set articles\<close> show ?thesis by simp
    qed
    then have in_articles: "set ys \<subseteq> set articles" using set_zs by (auto simp: ys_def)
    have "distinct ys" using dz fst_ys by (metis distinct_map)
    moreover have "fst ` set ys = S" using fst_ys set_zs by (metis set_map)
    moreover have "length ys = k" using len by (simp add: ys_def)
    ultimately have "ys \<in> ?A" using in_articles by (simp add: A)
    with fst_ys show "zs \<in> map fst ` ?A" by (metis imageI)
  qed
  have "card ?A = card (map fst ` ?A)" using inj_map by (simp add: card_image)
  also have "\<dots> = card ?B" by (simp only: image)
  also have "\<dots> = \<Prod>{card S - k + 1 .. card S}"
    using fin card by (intro card_lists_distinct_length_eq) simp_all
  also have "\<dots> = fact k" using card by (simp add: fact_prod)
  finally show ?thesis .
qed

text \<open>
  The sampling bound of \<open>_find_tagged_articles\<close>, for the map \<open>articles\<close> built from
  the rows of the two queries (one entry per page, so the number \<open>n\<close> of pages is its
  length).  For \<open>n \<le> 10\<close> all pages are returned, in the order of the map, with the
  flag unset.  For \<open>n > 10\<close> the outcome is that of \<open>random.sample\<close> on the item view:
  its exception leaves the method; where it returns a sample, the method returns the
  ten pages drawn, all different, with the flag set.  Every set of ten pages of the
  map is the page set of exactly \<open>10!\<close> of the possible samples.
\<close>

theorem find_tagged_articles_sampling_bound:
  assumes conn: "connection"
    and q1: "articles_query (join ''|'' categories) TAGS = Rows result1"
    and q2: "iabot_query (join ''|'' categories) IABOT_CATS = Rows result2"
    and arts: "articles = extract_problems utf8 result2 (extract_problems utf8 result1 [])"
  shows "card (fst ` set articles) = length articles
     \<and> (length articles \<le> NUM \<longrightarrow>
          (\<exists>results. find_tagged_articles connection articles_query iabot_query utf8 sample list_set categories
                = Inr (results, False)
             \<and> map page results = map fst articles))
     \<and> (length articles > NUM \<longrightarrow>
          (\<forall>e. sample articles NUM = Inl e \<longrightarrow>
             find_tagged_articles connection articles_query iabot_query utf8 sample list_set categories = Inl e)
        \<and> (\<forall>ys. sample articles NUM = Inr ys \<and> sample_ok articles NUM ys \<longrightarrow>
             (\<exists>results. find_tagged_articles connection articles_query iabot_query utf8 sample list_set categories
                  = Inr (results, True)
               \<and> length results = NUM
               \<and> map page results = map fst ys
               \<and> distinct (map page results)
               \<and> page ` set results \<subseteq> fst ` set articles))
        \<and> (\<forall>S. S \<subseteq> fst ` set articles \<and> card S = NUM \<longrightarrow>
             card {ys. sample_ok articles NUM ys \<and> fst ` set ys = S} = fact NUM))"
proof -
  have keys: "distinct (map fst articles)"
    unfolding arts by (intro extract_problems_distinct) simp
  have run: "find_tagged_articles connection articles_query iabot_query utf8 sample list_set categories
      = finalize sample list_set articles"
    unfolding arts using conn q1 q2 by (rule find_tagged_articles_rows)
  have n: "card (fst ` set articles) = length articles"
    using distinct_card [OF keys] by simp
  have small: "\<exists>results. find_tagged_articles connection articles_query iabot_query utf8 sample list_set categories
                = Inr (results, False)
             \<and> map page results = map fst articles"
    if "length articles \<le> NUM"
    using that by (simp add: run finalize_small page_of_results del: map_map)
  have raises: "find_tagged_articles connection articles_query iabot_query utf8 sample list_set categories = Inl e"
    if "length articles > NUM" and "sample articles NUM = Inl e" for e
    using that by (simp add: run finalize_big)
  have returns: "\<exists>results. find_tagged_articles connection articles_query iabot_query utf8 sample list_set categories
                  = Inr (results, True)
               \<and> length results = NUM
               \<and> map page results = map fst ys
               \<and> distinct (map page results)
               \<and> page ` set results \<subseteq> fst ` set articles"
    if more: "length articles > NUM" and ys: "sample articles NUM = Inr ys" and ok: "sample_ok articles NUM ys"
    for ys
  proof -
    let ?results = "map (\<lambda>(p, ps). \<lparr>page = p, problems = list_set ps\<rparr>) ys"
    from ok have len: "length ys = NUM" and sel: "selection_of ys articles"
      by (simp_all add: sample_ok_def)
    have a: "find_tagged_articles connection articles_query iabot_query utf8 sample list_set categories
                  = Inr (?results, True)"
      using more ys by (simp add: run finalize_big)
    have b: "map page ?results = map fst ys" by (rule page_of_results)
    have c: "distinct (map page ?results)"
      using selection_of_distinct_map [OF sel keys] by (simp only: b)
    have "set (map page ?results) \<subseteq> set (map fst articles)"
      using selection_of_subset [OF sel] by (auto simp only: b set_map)
    then have d: "page ` set ?results \<subseteq> fst ` set articles" by (simp only: set_map)
    have e: "length ?results = NUM" using len by simp
    show ?thesis using a b c d e by blast
  qed
  have count: "card {ys. sample_ok articles NUM ys \<and> fst ` set ys = S} = fact NUM"
    if "S \<subseteq> fst ` set articles" and "card S = NUM" for S
    using keys that by (rule samples_with_pages_card)
  show ?thesis
  proof (intro conjI)
    show "card (fst ` set articles) = length articles" by (rule n)
    show "length articles \<le> NUM \<longrightarrow>
          (\<exists>results. find_tagged_articles connection articles_query iabot_query utf8 sample list_set categories
                = Inr (results, False)
             \<and> map page results = map fst articles)"
      using small by blast
    show "length articles > NUM \<longrightarrow>
          (\<forall>e. sample articles NUM = Inl e \<longrightarrow>
             find_tagged_articles connection articles_query iabot_query utf8 sample list_set categories = Inl e)
        \<and> (\<forall>ys. sample articles NUM = Inr ys \<and> sample_ok articles NUM ys \<longrightarrow>
             (\<exists>results. find_tagged_articles connection articles_query iabot_query utf8 sample list_set categories
                  = Inr (results, True)
               \<and> length results = NUM
               \<and> map page results = map fst ys
               \<and> distinct (map page results)
               \<and> page ` set results \<subseteq> fst ` set articles))
        \<and> (\<forall>S. S \<subseteq> fst ` set articles \<and> card S = NUM \<longrightarrow>
             card {ys. sample_ok articles NUM ys \<and> fst ` set ys = S} = fact NUM)"
    proof (intro impI conjI allI)
      fix e assume "length articles > NUM" and "sample articles NUM = Inl e"
      then show "find_tagged_articles connection articles_query iabot_query utf8 sample list_set categories = Inl e"
        by (rule raises)
    next
      fix ys assume "length articles > NUM" and "sample articles NUM = Inr ys \<and> sample_ok articles NUM ys"
      then show "\<exists>results. find_tagged_articles connection articles_query iabot_query utf8 sample list_set categories
                  = Inr (results, True)
               \<and> length results = NUM
               \<and> map page results = map fst ys
               \<and> distinct (map page results)
               \<and> page ` set results \<subseteq> fst ` set articles"
        using returns [of ys] by blast
    next
      fix S assume "length articles > NUM" and "S \<subseteq> fst ` set articles \<and> card S = NUM"
      then show "card {ys. sample_ok articles NUM ys \<and> fst ` set ys = S} = fact NUM"
        using count [of S] by blast
    qed
  qed
qed

text \<open>
  Claim C1 fails on the code where \<open>random.sample\<close> does not accept the item view of
  a dictionary (Python 3.11 and later): for a map of eleven pages the call of line 180
  raises \<open>TypeError\<close>, and the method returns no result where the claim has ten page
  results and the flag set.
\<close>

theorem find_tagged_articles_sample_raises:
  "length (extract_problems Some [] (extract_problems Some eleven_rows [])) = 11
   \<and> find_tagged_articles True (\<lambda>categories tags. Rows eleven_rows) (\<lambda>categories catalog. Rows [])
        Some (\<lambda>population k. Inl SampleTypeError) remdups [''Sport'']
      = Inl SampleTypeError"
  by (simp add: find_tagged_articles_def finalize_def NUM_def eleven_rows_def str_replace_def)

text \<open>
  Claim C3: whatever the two queries return, a page result of
  \<open>_find_tagged_articles\<close> lists no label twice.
\<close>

theorem find_tagged_articles_no_duplicate_labels:
  assumes lib: "\<forall>xs. list_set_ok xs (list_set xs)"
    and ret: "find_tagged_articles connection articles_query iabot_query utf8 sample list_set categories
                = Inr (results, truncated)"
  shows "\<forall>r \<in> set results. distinct (problems r)"
proof
  fix r assume r: "r \<in> set results"
  from find_tagged_articles_Inr [OF ret] obtain r1 r2
    where "finalize sample list_set (extract_problems utf8 r2 (extract_problems utf8 r1 []))
             = Inr (results, truncated)"
    by blast
  from finalize_Inr [OF this] obtain ys
    where "results = map (\<lambda>(p, ps). \<lparr>page = p, problems = list_set ps\<rparr>) ys" by blast
  with r obtain ps where "problems r = list_set ps" by auto
  with lib show "distinct (problems r)" by (simp add: list_set_ok_def)
qed

text \<open>
  Claim C3 on an example: the first source reports the same label twice for a page,
  the second reports it once more; the result has it once.
\<close>

theorem find_tagged_articles_no_duplicate_labels_witness:
  "find_tagged_articles True
      (\<lambda>categories tags. Rows [row_of ''ArticleA'' (PyBytes ''Belege_fehlen''), row_of ''ArticleA'' (PyBytes ''Belege_fehlen'')])
      (\<lambda>categories catalog. Rows [row_of ''ArticleA'' (PyStr ''Belege fehlen'')])
      Some first_k remdups [''Sport'']
    = Inr ([\<lparr>page = ''ArticleA'', problems = [PyStr ''Belege fehlen'']\<rparr>], False)
   \<and> distinct (problems \<lparr>page = ''ArticleA'', problems = [PyStr ''Belege fehlen'']\<rparr>)"
proof -
  have lib: "\<forall>xs::pyval list. list_set_ok xs (remdups xs)"
    by (simp add: list_set_ok_def)
  have ret: "find_tagged_articles True
      (\<lambda>categories tags. Rows [row_of ''ArticleA'' (PyBytes ''Belege_fehlen''), row_of ''ArticleA'' (PyBytes ''Belege_fehlen'')])
      (\<lambda>categories catalog. Rows [row_of ''ArticleA'' (PyStr ''Belege fehlen'')])
      Some first_k remdups [''Sport'']
    = Inr ([\<lparr>page = ''ArticleA'', problems = [PyStr ''Belege fehlen'']\<rparr>], False)"
    by (simp add: find_tagged_articles_def finalize_def NUM_def str_replace_def first_k_def)
  show ?thesis
    using find_tagged_articles_no_duplicate_labels [OF lib ret] ret by simp
qed

text \<open>
  Claim C8: for a map of at most \<open>NUM\<close> pages, two runs of the final step both return,
  with the same pages in the same order, the same sets of labels and no truncation
  flag, whatever order \<open>list(set(problems))\<close> takes in either run.
\<close>

theorem finalize_idempotent:
  assumes small: "length articles \<le> NUM"
    and lib1: "\<forall>xs. list_set_ok xs (list_set1 xs)"
    and lib2: "\<forall>xs. list_set_ok xs (list_set2 xs)"
  shows "\<exists>results1 results2.
           finalize sample1 list_set1 articles = Inr (results1, False)
         \<and> finalize sample2 list_set2 articles = Inr (results2, False)
         \<and> map (\<lambda>r. (page r, set (problems r))) results1
             = map (\<lambda>r. (page r, set (problems r))) results2"
proof -
  have "map (\<lambda>r. (page r, set (problems r)))
          (map (\<lambda>(p, ps). \<lparr>page = p, problems = list_set ps\<rparr>) articles)
      = map (\<lambda>(p, ps). (p, set ps)) articles"
    if "\<forall>xs. list_set_ok xs (list_set xs)" for list_set :: "pyval list \<Rightarrow> pyval list"
    using that by (auto simp: list_set_ok_def)
  from this [OF lib1] this [OF lib2] show ?thesis
    using small by (simp add: finalize_small del: map_map)
qed

text \<open>
  Claim C8 on an example: the two runs list the labels of the page in different
  orders.
\<close>

theorem finalize_idempotent_witness:
  "finalize first_k remdups
       [(''A'', [PyStr ''x'', PyStr ''y'', PyStr ''x''])]
     = Inr ([\<lparr>page = ''A'', problems = [PyStr ''y'', PyStr ''x'']\<rparr>], False)
   \<and> finalize (\<lambda>population k. Inl SampleTypeError) (\<lambda>xs. rev (remdups xs))
       [(''A'', [PyStr ''x'', PyStr ''y'', PyStr ''x''])]
     = Inr ([\<lparr>page = ''A'', problems = [PyStr ''x'', PyStr ''y'']\<rparr>], False)
   \<and> map (\<lambda>r. (page r, set (problems r))) [\<lparr>page = ''A'', problems = [PyStr ''y'', PyStr ''x'']\<rparr>]
     = map (\<lambda>r. (page r, set (problems r))) [\<lparr>page = ''A'', problems = [PyStr ''x'', PyStr ''y'']\<rparr>]"
proof -
  have small: "length [(''A'', [PyStr ''x'', PyStr ''y'', PyStr ''x''])] \<le> NUM"
    by (simp add: NUM_def)
  have lib1: "\<forall>xs::pyval list. list_set_ok xs (remdups xs)"
    by (simp add: list_set_ok_def)
  have lib2: "\<forall>xs::pyval list. list_set_ok xs (rev (remdups xs))"
    by (simp add: list_set_ok_def)
  show ?thesis
    using finalize_idempotent [OF small lib1 lib2,
        of "\<lambda>population k. Inr (take k population)" "\<lambda>population k. Inl SampleTypeError"]
    by (simp add: finalize_def NUM_def)
qed

text \<open>
  Claim C9: no page occurs twice in the result list of \<open>_find_tagged_articles\<close>: rows
  of the same page, from either source, end in one entry of the map, and the sample
  draws without replacement.
\<close>

theorem find_tagged_articles_pages_once:
  assumes lib: "\<forall>population k ys. sample population k = Inr ys \<longrightarrow> sample_ok population k ys"
    and ret: "find_tagged_articles connection articles_query iabot_query utf8 sample list_set categories
                = Inr (results, truncated)"
  shows "distinct (map page results)"
proof -
  from find_tagged_articles_Inr [OF ret] obtain r1 r2
    where res: "finalize sample list_set (extract_problems utf8 r2 (extract_problems utf8 r1 []))
                  = Inr (results, truncated)"
    by blast
  define articles where "articles = extract_problems utf8 r2 (extract_problems utf8 r1 [])"
  have keys: "distinct (map fst articles)"
    unfolding articles_def by (intro extract_problems_distinct) simp
  from finalize_Inr [OF res] obtain ys
    where results: "results = map (\<lambda>(p, ps). \<lparr>page = p, problems = list_set ps\<rparr>) ys"
      and ys: "if length articles > NUM then sample articles NUM = Inr ys \<and> truncated
               else ys = articles \<and> \<not> truncated"
    unfolding articles_def by blast
  have pages: "map page results = map fst ys"
    unfolding results by (rule page_of_results)
  show ?thesis
  proof (cases "length articles > NUM")
    case True
    with ys have "sample articles NUM = Inr ys" by simp
    with lib have "sample_ok articles NUM ys" by blast
    then have "selection_of ys articles" by (simp add: sample_ok_def)
    from selection_of_distinct_map [OF this keys] show ?thesis by (simp only: pages)
  next
    case False
    with ys keys show ?thesis by (simp only: pages) simp
  qed
qed

text \<open>
  Claim C9 on an example: five rows from the two sources, for two pages.
\<close>

theorem find_tagged_articles_pages_once_witness:
  "find_tagged_articles True
      (\<lambda>categories tags. Rows [row_of ''A'' (PyBytes ''Veraltet''), row_of ''B'' (PyBytes ''Veraltet''), row_of ''A'' (PyBytes ''Belege_fehlen'')])
      (\<lambda>categories catalog. Rows [row_of ''B'' (PyStr ''Defekter Weblink''), row_of ''A'' (PyStr ''Defekter Weblink'')])
      Some first_k remdups [''Sport'']
    = Inr ([\<lparr>page = ''A'', problems = [PyStr ''Veraltet'', PyStr ''Belege fehlen'', PyStr ''Defekter Weblink'']\<rparr>,
            \<lparr>page = ''B'', problems = [PyStr ''Veraltet'', PyStr ''Defekter Weblink'']\<rparr>], False)
   \<and> distinct (map page [\<lparr>page = ''A'', problems = [PyStr ''Veraltet'', PyStr ''Belege fehlen'', PyStr ''Defekter Weblink'']\<rparr>,
            \<lparr>page = ''B'', problems = [PyStr ''Veraltet'', PyStr ''Defekter Weblink'']\<rparr>])"
proof -
  have lib: "\<forall>population k ys. first_k population k = Inr ys \<longrightarrow> sample_ok population k ys"
    by (auto simp: first_k_def sample_ok_def selection_of_take split: if_splits)
  have ret: "find_tagged_articles True
      (\<lambda>categories tags. Rows [row_of ''A'' (PyBytes ''Veraltet''), row_of ''B'' (PyBytes ''Veraltet''), row_of ''A'' (PyBytes ''Belege_fehlen'')])
      (\<lambda>categories catalog. Rows [row_of ''B'' (PyStr ''Defekter Weblink''), row_of ''A'' (PyStr ''Defekter Weblink'')])
      Some first_k remdups [''Sport'']
    = Inr ([\<lparr>page = ''A'', problems = [PyStr ''Veraltet'', PyStr ''Belege fehlen'', PyStr ''Defekter Weblink'']\<rparr>,
            \<lparr>page = ''B'', problems = [PyStr ''Veraltet'', PyStr ''Defekter Weblink'']\<rparr>], False)"
    by (simp add: find_tagged_articles_def finalize_def NUM_def str_replace_def first_k_def)
  show ?thesis
    using find_tagged_articles_pages_once [OF lib ret] ret by simp
qed

section \<open>Properties of the subtree expansion\<close>

text \<open>One level of \<open>_find_all_subcategories\<close>, by what happens to its query.\<close>

lemma find_all_subcategories_stop:
  "find_all_subcategories connect subq utf8 [] st depth = (None, st)"
  by (subst find_all_subcategories.simps) simp

lemma fetch_fails_no_subcategories:
  "fetch_fails utf8 reply \<Longrightarrow> reply_subcategories utf8 reply = []"
  by (auto simp: fetch_fails_def reply_subcategories_def split: db_reply.splits)

lemma find_all_subcategories_connect_fails:
  assumes "depth < MAX_DEPTH" and "filter (\<lambda>cat. CHR '':'' \<notin> set cat) cats = f" and "f \<noteq> []"
    and "\<not> connect depth"
  shows "find_all_subcategories connect subq utf8 cats st depth = (Some ConnectFailed, st)"
  using assms by (subst find_all_subcategories.simps) (simp add: Let_def)

lemma find_all_subcategories_execute_fails:
  assumes "depth < MAX_DEPTH" and "filter (\<lambda>cat. CHR '':'' \<notin> set cat) cats = f" and "f \<noteq> []"
    and "connect depth" and "subq f = ExecuteError"
  shows "find_all_subcategories connect subq utf8 cats st depth
           = (Some ExecuteFailed, st\<lparr>queried := queried st @ [f]\<rparr>)"
  using assms by (subst find_all_subcategories.simps) (simp add: Let_def)

lemma find_all_subcategories_fetch_fails:
  assumes "depth < MAX_DEPTH" and "filter (\<lambda>cat. CHR '':'' \<notin> set cat) cats = f" and "f \<noteq> []"
    and "connect depth" and "fetch_fails utf8 (subq f)"
  shows "find_all_subcategories connect subq utf8 cats st depth
           = (None, st\<lparr>queried := queried st @ [f], logged := logged st + 1\<rparr>)"
  using assms
  by (subst find_all_subcategories.simps)
     (simp add: Let_def fetch_fails_def find_all_subcategories_stop split: db_reply.splits option.splits)

lemma find_all_subcategories_descends:
  assumes "depth < MAX_DEPTH" and "filter (\<lambda>cat. CHR '':'' \<notin> set cat) cats = f" and "f \<noteq> []"
    and "connect depth" and "subq f \<noteq> ExecuteError" and "\<not> fetch_fails utf8 (subq f)"
  shows "find_all_subcategories connect subq utf8 cats st depth
           = find_all_subcategories connect subq utf8 (reply_subcategories utf8 (subq f))
               (st\<lparr>queried := queried st @ [f],
                   tree := tree st \<union> set (reply_subcategories utf8 (subq f))\<rparr>) (Suc depth)"
  using assms
  by (subst find_all_subcategories.simps)
     (auto simp: Let_def fetch_fails_def reply_subcategories_def split: db_reply.splits option.splits)

lemma find_all_subcategories_bound:
  assumes "depth \<ge> MAX_DEPTH \<or> filter (\<lambda>cat. CHR '':'' \<notin> set cat) cats = []"
  shows "find_all_subcategories connect subq utf8 cats st depth = (None, st)"
  using assms by (subst find_all_subcategories.simps) (auto simp: Let_def)

text \<open>Without a failure to connect or execute nothing is raised.\<close>

lemma find_all_subcategories_no_error:
  assumes conn: "\<And>d. connect d" and ex: "\<And>q. subq q \<noteq> ExecuteError"
  shows "fst (find_all_subcategories connect subq utf8 cats st depth) = None"
proof (induction "MAX_DEPTH - depth" arbitrary: cats st depth)
  case 0
  then show ?case by (simp add: find_all_subcategories_bound)
next
  case (Suc n)
  define f where "f = filter (\<lambda>cat. CHR '':'' \<notin> set cat) cats"
  have feq: "filter (\<lambda>cat. CHR '':'' \<notin> set cat) cats = f" by (simp add: f_def)
  from Suc.hyps(2) have d: "depth < MAX_DEPTH" and n: "n = MAX_DEPTH - Suc depth" by simp_all
  show ?case
  proof (cases "f = []")
    case True
    then show ?thesis by (simp add: find_all_subcategories_bound f_def)
  next
    case ne: False
    show ?thesis
    proof (cases "fetch_fails utf8 (subq f)")
      case True
      with d feq ne conn show ?thesis by (simp add: find_all_subcategories_fetch_fails)
    next
      case False
      have "find_all_subcategories connect subq utf8 cats st depth
           = find_all_subcategories connect subq utf8 (reply_subcategories utf8 (subq f))
               (st\<lparr>queried := queried st @ [f],
                   tree := tree st \<union> set (reply_subcategories utf8 (subq f))\<rparr>) (Suc depth)"
        using d feq ne conn ex False by (rule find_all_subcategories_descends)
      then show ?thesis using Suc.hyps(1) [OF n] by simp
    qed
  qed
qed

text \<open>The frontiers of a call that submits none, and of one that submits its own.\<close>

lemma query_chain_Nil:
  "depth \<ge> MAX_DEPTH \<or> filter (\<lambda>cat. CHR '':'' \<notin> set cat) cats = [] \<or> \<not> connect depth \<Longrightarrow>
   query_chain connect subq utf8 cats depth []"
  by (auto simp: query_chain_def)

lemma query_chain_Cons:
  assumes f: "f = filter (\<lambda>cat. CHR '':'' \<notin> set cat) cats" and ne: "f \<noteq> []"
    and d: "depth < MAX_DEPTH"
    and rest: "query_chain connect subq utf8 (reply_subcategories utf8 (subq f)) (Suc depth) qs'"
  shows "query_chain connect subq utf8 cats depth (f # qs')"
proof -
  from rest have len': "length qs' \<le> MAX_DEPTH - Suc depth"
    and all': "\<forall>q \<in> set qs'. q \<noteq> [] \<and> (\<forall>c \<in> set q. CHR '':'' \<notin> set c)"
    and hd': "qs' \<noteq> [] \<longrightarrow> hd qs' = filter (\<lambda>cat. CHR '':'' \<notin> set cat) (reply_subcategories utf8 (subq f))"
    and first': "Suc depth < MAX_DEPTH
        \<and> filter (\<lambda>cat. CHR '':'' \<notin> set cat) (reply_subcategories utf8 (subq f)) \<noteq> []
        \<and> connect (Suc depth) \<longrightarrow> qs' \<noteq> []"
    and chain': "\<forall>i. Suc i < length qs' \<longrightarrow>
            qs' ! Suc i = filter (\<lambda>cat. CHR '':'' \<notin> set cat) (reply_subcategories utf8 (subq (qs' ! i)))"
    and next': "\<forall>i. i < length qs' \<and> Suc depth + Suc i < MAX_DEPTH \<and> connect (Suc depth + Suc i)
              \<and> filter (\<lambda>cat. CHR '':'' \<notin> set cat) (reply_subcategories utf8 (subq (qs' ! i))) \<noteq> []
           \<longrightarrow> Suc i < length qs'"
    unfolding query_chain_def by blast+
  have len: "length (f # qs') \<le> MAX_DEPTH - depth" using len' d by simp
  have all: "\<forall>q \<in> set (f # qs'). q \<noteq> [] \<and> (\<forall>c \<in> set q. CHR '':'' \<notin> set c)"
    using all' ne f by simp
  have hd: "f # qs' \<noteq> [] \<longrightarrow> hd (f # qs') = filter (\<lambda>cat. CHR '':'' \<notin> set cat) cats"
    using f by simp
  have first: "depth < MAX_DEPTH \<and> filter (\<lambda>cat. CHR '':'' \<notin> set cat) cats \<noteq> [] \<and> connect depth
           \<longrightarrow> f # qs' \<noteq> []"
    by simp
  have chain: "(f # qs') ! Suc i
        = filter (\<lambda>cat. CHR '':'' \<notin> set cat) (reply_subcategories utf8 (subq ((f # qs') ! i)))"
    if i: "Suc i < length (f # qs')" for i
  proof (cases i)
    case 0
    with i have "qs' \<noteq> []" by auto
    moreover from this have "qs' ! 0 = hd qs'" by (simp add: hd_conv_nth)
    ultimately show ?thesis using hd' 0 by simp
  next
    case (Suc j)
    with i chain' show ?thesis by simp
  qed
  have nxt: "Suc i < length (f # qs')"
    if i: "i < length (f # qs')" and b: "depth + Suc i < MAX_DEPTH" and c: "connect (depth + Suc i)"
      and n: "filter (\<lambda>cat. CHR '':'' \<notin> set cat) (reply_subcategories utf8 (subq ((f # qs') ! i))) \<noteq> []"
    for i
  proof (cases i)
    case 0
    with b c n first' have "qs' \<noteq> []" by simp
    with 0 show ?thesis by simp
  next
    case (Suc j)
    with i b c n have "j < length qs' \<and> Suc depth + Suc j < MAX_DEPTH \<and> connect (Suc depth + Suc j)
        \<and> filter (\<lambda>cat. CHR '':'' \<notin> set cat) (reply_subcategories utf8 (subq (qs' ! j))) \<noteq> []"
      by simp
    with next' have "Suc j < length qs'" by blast
    with Suc show ?thesis by simp
  qed
  show ?thesis
    unfolding query_chain_def
    apply (intro conjI allI impI)
         apply (rule len)
        apply (rule all)
       apply (rule hd [rule_format], assumption)
      apply (rule first [rule_format], assumption)
     apply (erule chain)
    apply (elim conjE)
    apply (erule (3) nxt)
    done
qed

text \<open>
  A call adds its frontiers to the log, the subcategories of their replies to the set,
  and one logged error for every frontier whose fetch failed.
\<close>

lemma find_all_subcategories_run:
  "\<exists>qs. queried (snd (find_all_subcategories connect subq utf8 cats st depth)) = queried st @ qs
      \<and> query_chain connect subq utf8 cats depth qs
      \<and> tree (snd (find_all_subcategories connect subq utf8 cats st depth))
          = tree st \<union> (\<Union>q \<in> set qs. set (reply_subcategories utf8 (subq q)))
      \<and> logged (snd (find_all_subcategories connect subq utf8 cats st depth))
          = logged st + length (filter (\<lambda>q. fetch_fails utf8 (subq q)) qs)"
proof (induction "MAX_DEPTH - depth" arbitrary: cats st depth rule: less_induct)
  case less
  define f where "f = filter (\<lambda>cat. CHR '':'' \<notin> set cat) cats"
  have feq: "filter (\<lambda>cat. CHR '':'' \<notin> set cat) cats = f" by (simp add: f_def)
  show ?case
  proof (cases "depth \<ge> MAX_DEPTH \<or> f = []")
    case True
    then have "find_all_subcategories connect subq utf8 cats st depth = (None, st)"
      by (intro find_all_subcategories_bound) (simp add: f_def)
    moreover have "query_chain connect subq utf8 cats depth []"
      using True by (intro query_chain_Nil) (auto simp: f_def)
    ultimately show ?thesis by simp
  next
    case False
    then have d: "depth < MAX_DEPTH" and ne: "f \<noteq> []" by simp_all
    have single: "query_chain connect subq utf8 cats depth [f]"
      if "reply_subcategories utf8 (subq f) = []"
    proof -
      have "query_chain connect subq utf8 (reply_subcategories utf8 (subq f)) (Suc depth) []"
        by (rule query_chain_Nil) (simp add: that)
      with f_def ne d show ?thesis by (rule query_chain_Cons)
    qed
    show ?thesis
    proof (cases "connect depth")
      case False
      have "find_all_subcategories connect subq utf8 cats st depth = (Some ConnectFailed, st)"
        using d feq ne False by (rule find_all_subcategories_connect_fails)
      moreover have "query_chain connect subq utf8 cats depth []"
        using False by (intro query_chain_Nil) simp
      ultimately show ?thesis by simp
    next
      case True
      show ?thesis
      proof (cases "subq f = ExecuteError")
        case exec: True
        have "find_all_subcategories connect subq utf8 cats st depth
           = (Some ExecuteFailed, st\<lparr>queried := queried st @ [f]\<rparr>)"
          using d feq ne True exec by (rule find_all_subcategories_execute_fails)
        moreover have "reply_subcategories utf8 (subq f) = []" "\<not> fetch_fails utf8 (subq f)"
          using exec by (simp_all add: reply_subcategories_def fetch_fails_def)
        ultimately show ?thesis using single by simp
      next
        case noexec: False
        show ?thesis
        proof (cases "fetch_fails utf8 (subq f)")
          case fails: True
          have "find_all_subcategories connect subq utf8 cats st depth
             = (None, st\<lparr>queried := queried st @ [f], logged := logged st + 1\<rparr>)"
            using d feq ne True fails by (rule find_all_subcategories_fetch_fails)
          moreover have "reply_subcategories utf8 (subq f) = []"
            using fails by (rule fetch_fails_no_subcategories)
          ultimately show ?thesis using single fails by simp
        next
          case ok: False
          define subs where "subs = reply_subcategories utf8 (subq f)"
          define st'' where "st'' = st\<lparr>queried := queried st @ [f], tree := tree st \<union> set subs\<rparr>"
          have eq: "find_all_subcategories connect subq utf8 cats st depth
              = find_all_subcategories connect subq utf8 subs st'' (Suc depth)"
            unfolding subs_def st''_def
            using d feq ne True noexec ok by (rule find_all_subcategories_descends)
          have "MAX_DEPTH - Suc depth < MAX_DEPTH - depth" using d by simp
          from less [OF this, of subs st'']
          obtain qs' where run: "queried (snd (find_all_subcategories connect subq utf8 subs st'' (Suc depth)))
                = queried st'' @ qs'"
            and chain: "query_chain connect subq utf8 subs (Suc depth) qs'"
            and tr: "tree (snd (find_all_subcategories connect subq utf8 subs st'' (Suc depth)))
                = tree st'' \<union> (\<Union>q \<in> set qs'. set (reply_subcategories utf8 (subq q)))"
            and lg: "logged (snd (find_all_subcategories connect subq utf8 subs st'' (Suc depth)))
                = logged st'' + length (filter (\<lambda>q. fetch_fails utf8 (subq q)) qs')"
            by blast
          have c: "query_chain connect subq utf8 cats depth (f # qs')"
            using f_def ne d chain unfolding subs_def by (intro query_chain_Cons) simp_all
          have a: "queried (snd (find_all_subcategories connect subq utf8 cats st depth))
              = queried st @ (f # qs')"
            using run by (simp add: eq st''_def)
          have b: "tree (snd (find_all_subcategories connect subq utf8 cats st depth))
              = tree st \<union> (\<Union>q \<in> set (f # qs'). set (reply_subcategories utf8 (subq q)))"
            using tr by (auto simp: eq st''_def subs_def)
          have e: "logged (snd (find_all_subcategories connect subq utf8 cats st depth))
              = logged st + length (filter (\<lambda>q. fetch_fails utf8 (subq q)) (f # qs'))"
            using lg ok by (simp add: eq st''_def)
          show ?thesis using a c b e by blast
        qed
      qed
    qed
  qed
qed


lemma find_all_subcategories_tree_mono:
  "tree st \<subseteq> tree (snd (find_all_subcategories connect subq utf8 cats st depth))"
  using find_all_subcategories_run [of connect subq utf8 cats st depth] by auto

text \<open>The frontier some levels below a call, and what the call does when that level fails.\<close>

lemma frontier_at_Nil: "frontier_at connect subq utf8 [] depth k = None"
  by (cases k) simp_all

lemma frontier_at_0_Some:
  assumes "frontier_at connect subq utf8 cats depth 0 = Some f"
  shows "depth < MAX_DEPTH \<and> filter (\<lambda>cat. CHR '':'' \<notin> set cat) cats = f \<and> f \<noteq> []"
  using assms by (auto simp: Let_def split: if_splits)

lemma frontier_at_Suc_Some:
  assumes "frontier_at connect subq utf8 cats depth (Suc k) = Some f"
  shows "depth < MAX_DEPTH \<and> filter (\<lambda>cat. CHR '':'' \<notin> set cat) cats \<noteq> [] \<and> connect depth
     \<and> subq (filter (\<lambda>cat. CHR '':'' \<notin> set cat) cats) \<noteq> ExecuteError
     \<and> \<not> fetch_fails utf8 (subq (filter (\<lambda>cat. CHR '':'' \<notin> set cat) cats))
     \<and> frontier_at connect subq utf8
          (reply_subcategories utf8 (subq (filter (\<lambda>cat. CHR '':'' \<notin> set cat) cats))) (Suc depth) k
        = Some f"
proof -
  let ?f0 = "filter (\<lambda>cat. CHR '':'' \<notin> set cat) cats"
  from assms have a: "depth < MAX_DEPTH" "?f0 \<noteq> []" "connect depth" "subq ?f0 \<noteq> ExecuteError"
    and b: "frontier_at connect subq utf8 (reply_subcategories utf8 (subq ?f0)) (Suc depth) k = Some f"
    by (auto simp: Let_def split: if_splits)
  have "\<not> fetch_fails utf8 (subq ?f0)"
  proof
    assume "fetch_fails utf8 (subq ?f0)"
    then have "reply_subcategories utf8 (subq ?f0) = []" by (rule fetch_fails_no_subcategories)
    with b show False by (simp add: frontier_at_Nil)
  qed
  with a b show ?thesis by simp
qed

lemma find_all_subcategories_descends_to:
  assumes "frontier_at connect subq utf8 cats depth (Suc k) = Some f"
  shows "find_all_subcategories connect subq utf8 cats st depth
     = find_all_subcategories connect subq utf8
         (reply_subcategories utf8 (subq (filter (\<lambda>cat. CHR '':'' \<notin> set cat) cats)))
         (st\<lparr>queried := queried st @ [filter (\<lambda>cat. CHR '':'' \<notin> set cat) cats],
             tree := tree st \<union> set (reply_subcategories utf8 (subq (filter (\<lambda>cat. CHR '':'' \<notin> set cat) cats)))\<rparr>)
         (Suc depth)"
  using frontier_at_Suc_Some [OF assms] by (intro find_all_subcategories_descends) simp_all

lemma frontier_connect_fails:
  "frontier_at connect subq utf8 cats depth k = Some f \<Longrightarrow> \<not> connect (depth + k) \<Longrightarrow>
   fst (find_all_subcategories connect subq utf8 cats st depth) = Some ConnectFailed"
proof (induction k arbitrary: cats st depth)
  case 0
  then show ?case
    using frontier_at_0_Some [OF "0.prems"(1)] by (simp add: find_all_subcategories_connect_fails)
next
  case (Suc k)
  from frontier_at_Suc_Some [OF Suc.prems(1)] Suc.prems(2)
  show ?case
    by (simp add: find_all_subcategories_descends_to [OF Suc.prems(1)] Suc.IH)
qed

lemma frontier_execute_fails:
  "frontier_at connect subq utf8 cats depth k = Some f \<Longrightarrow> connect (depth + k) \<Longrightarrow>
   subq f = ExecuteError \<Longrightarrow>
   fst (find_all_subcategories connect subq utf8 cats st depth) = Some ExecuteFailed"
proof (induction k arbitrary: cats st depth)
  case 0
  then show ?case
    using frontier_at_0_Some [OF "0.prems"(1)] by (simp add: find_all_subcategories_execute_fails)
next
  case (Suc k)
  from frontier_at_Suc_Some [OF Suc.prems(1)] Suc.prems(2,3)
  show ?case
    by (simp add: find_all_subcategories_descends_to [OF Suc.prems(1)] Suc.IH)
qed

lemma frontier_fetch_fails:
  "frontier_at connect subq utf8 cats depth k = Some f \<Longrightarrow> connect (depth + k) \<Longrightarrow>
   fetch_fails utf8 (subq f) \<Longrightarrow>
   fst (find_all_subcategories connect subq utf8 cats st depth) = None
   \<and> (\<exists>qs. queried (snd (find_all_subcategories connect subq utf8 cats st depth)) = queried st @ qs
         \<and> length qs = Suc k \<and> last qs = f)
   \<and> logged (snd (find_all_subcategories connect subq utf8 cats st depth)) = Suc (logged st)"
proof (induction k arbitrary: cats st depth)
  case 0
  from frontier_at_0_Some [OF "0.prems"(1)] "0.prems"(2,3)
  have "find_all_subcategories connect subq utf8 cats st depth
           = (None, st\<lparr>queried := queried st @ [f], logged := logged st + 1\<rparr>)"
    by (intro find_all_subcategories_fetch_fails) simp_all
  then show ?case by simp
next
  case (Suc k)
  let ?f0 = "filter (\<lambda>cat. CHR '':'' \<notin> set cat) cats"
  let ?st = "st\<lparr>queried := queried st @ [?f0],
             tree := tree st \<union> set (reply_subcategories utf8 (subq ?f0))\<rparr>"
  let ?deep = "find_all_subcategories connect subq utf8 (reply_subcategories utf8 (subq ?f0)) ?st (Suc depth)"
  have eq: "find_all_subcategories connect subq utf8 cats st depth = ?deep"
    by (rule find_all_subcategories_descends_to [OF Suc.prems(1)])
  from frontier_at_Suc_Some [OF Suc.prems(1)]
  have fr: "frontier_at connect subq utf8 (reply_subcategories utf8 (subq ?f0)) (Suc depth) k = Some f"
    by simp
  from Suc.prems(2) have conn: "connect (Suc depth + k)" by simp
  from Suc.IH [OF fr conn Suc.prems(3), of ?st]
  obtain qs where a: "fst ?deep = None" and b: "queried (snd ?deep) = queried ?st @ qs"
    and c: "length qs = Suc k" and d: "last qs = f" and e: "logged (snd ?deep) = Suc (logged ?st)"
    by blast
  from c have "qs \<noteq> []" by auto
  with b c d have "queried (snd ?deep) = queried st @ (?f0 # qs) \<and> length (?f0 # qs) = Suc (Suc k)
      \<and> last (?f0 # qs) = f"
    by simp
  then have "\<exists>qs. queried (snd ?deep) = queried st @ qs \<and> length qs = Suc (Suc k) \<and> last qs = f"
    by blast
  with a e show ?case by (simp add: eq)
qed

lemma frontier_at_log:
  "frontier_at connect subq utf8 cats depth k = Some f \<Longrightarrow>
   \<exists>qs. queried (snd (find_all_subcategories connect subq utf8 cats st depth)) = queried st @ qs
      \<and> (connect (depth + k) \<longrightarrow> k < length qs \<and> qs ! k = f)
      \<and> (\<not> connect (depth + k) \<longrightarrow> length qs = k)"
proof (induction k arbitrary: cats st depth)
  case 0
  from frontier_at_0_Some [OF "0.prems"]
  have d: "depth < MAX_DEPTH" and feq: "filter (\<lambda>cat. CHR '':'' \<notin> set cat) cats = f" and ne: "f \<noteq> []"
    by simp_all
  show ?case
  proof (cases "connect depth")
    case False
    have "find_all_subcategories connect subq utf8 cats st depth = (Some ConnectFailed, st)"
      using d feq ne False by (rule find_all_subcategories_connect_fails)
    with False show ?thesis by simp
  next
    case True
    from find_all_subcategories_run [of connect subq utf8 cats st depth]
    obtain qs where q: "queried (snd (find_all_subcategories connect subq utf8 cats st depth)) = queried st @ qs"
      and chain: "query_chain connect subq utf8 cats depth qs"
      by blast
    from chain d feq ne True have "qs \<noteq> []" and "hd qs = f"
      unfolding query_chain_def by auto
    then have "0 < length qs \<and> qs ! 0 = f" by (simp add: hd_conv_nth)
    with q True show ?thesis by auto
  qed
next
  case (Suc k)
  let ?f0 = "filter (\<lambda>cat. CHR '':'' \<notin> set cat) cats"
  let ?st = "st\<lparr>queried := queried st @ [?f0],
             tree := tree st \<union> set (reply_subcategories utf8 (subq ?f0))\<rparr>"
  let ?deep = "find_all_subcategories connect subq utf8 (reply_subcategories utf8 (subq ?f0)) ?st (Suc depth)"
  have eq: "find_all_subcategories connect subq utf8 cats st depth = ?deep"
    by (rule find_all_subcategories_descends_to [OF Suc.prems])
  from frontier_at_Suc_Some [OF Suc.prems]
  have fr: "frontier_at connect subq utf8 (reply_subcategories utf8 (subq ?f0)) (Suc depth) k = Some f"
    by simp
  from Suc.IH [OF fr, of ?st]
  obtain qs where a: "queried (snd ?deep) = queried ?st @ qs"
    and b: "connect (Suc depth + k) \<longrightarrow> k < length qs \<and> qs ! k = f"
    and c: "\<not> connect (Suc depth + k) \<longrightarrow> length qs = k"
    by blast
  have "queried (snd ?deep) = queried st @ (?f0 # qs)" using a by simp
  moreover have "connect (depth + Suc k) \<longrightarrow> Suc k < length (?f0 # qs) \<and> (?f0 # qs) ! Suc k = f"
    using b by simp
  moreover have "\<not> connect (depth + Suc k) \<longrightarrow> length (?f0 # qs) = Suc k"
    using c by simp
  ultimately show ?case unfolding eq by blast
qed

text \<open>
  Claim C2, as the code has it.  The expansion submits at most \<open>MAX_DEPTH\<close> frontiers
  to the subcategory query, none empty and none with a colon in a name.  The first is
  the colon-free part of \<open>[category]\<close>; each later one is the colon-free part of the
  subcategories in the reply to the frontier before it; and such a frontier is
  submitted whenever it is not empty, the depth bound is not reached and the
  connection opens.  Nothing is filtered by membership in the set: within the depth
  bound every colon-free name of a reply is in the next frontier, and every name of a
  later frontier is in the set.
\<close>

theorem expand_category_query_chain:
  "query_chain connect subq utf8 [category] 0 (queried (snd (expand_category connect subq utf8 category)))
   \<and> (\<forall>i x. i < length (queried (snd (expand_category connect subq utf8 category)))
          \<and> Suc i < MAX_DEPTH \<and> connect (Suc i)
          \<and> x \<in> set (reply_subcategories utf8 (subq (queried (snd (expand_category connect subq utf8 category)) ! i)))
          \<and> CHR '':'' \<notin> set x
        \<longrightarrow> Suc i < length (queried (snd (expand_category connect subq utf8 category)))
          \<and> x \<in> set (queried (snd (expand_category connect subq utf8 category)) ! Suc i))
   \<and> (\<forall>i. Suc i < length (queried (snd (expand_category connect subq utf8 category)))
        \<longrightarrow> set (queried (snd (expand_category connect subq utf8 category)) ! Suc i)
              \<subseteq> tree (snd (expand_category connect subq utf8 category)))"
proof -
  define qs where "qs = queried (snd (expand_category connect subq utf8 category))"
  define tr where "tr = tree (snd (expand_category connect subq utf8 category))"
  from find_all_subcategories_run
    [of connect subq utf8 "[category]"
        "\<lparr>tree = {str_replace CHR '' '' CHR ''_'' category}, queried = [], logged = 0\<rparr>" 0]
  have chain: "query_chain connect subq utf8 [category] 0 qs"
    and tree: "tr = {str_replace CHR '' '' CHR ''_'' category}
                 \<union> (\<Union>q \<in> set qs. set (reply_subcategories utf8 (subq q)))"
    by (auto simp: expand_category_def qs_def tr_def)
  from chain have step: "\<forall>i. Suc i < length qs \<longrightarrow>
            qs ! Suc i = filter (\<lambda>cat. CHR '':'' \<notin> set cat) (reply_subcategories utf8 (subq (qs ! i)))"
    and more: "\<forall>i. i < length qs \<and> 0 + Suc i < MAX_DEPTH \<and> connect (0 + Suc i)
              \<and> filter (\<lambda>cat. CHR '':'' \<notin> set cat) (reply_subcategories utf8 (subq (qs ! i))) \<noteq> []
           \<longrightarrow> Suc i < length qs"
    unfolding query_chain_def by blast+
  have again: "Suc i < length qs \<and> x \<in> set (qs ! Suc i)"
    if "i < length qs" "Suc i < MAX_DEPTH" "connect (Suc i)"
      "x \<in> set (reply_subcategories utf8 (subq (qs ! i)))" "CHR '':'' \<notin> set x" for i x
  proof -
    from that(4,5)
    have x: "x \<in> set (filter (\<lambda>cat. CHR '':'' \<notin> set cat) (reply_subcategories utf8 (subq (qs ! i))))"
      by simp
    have "filter (\<lambda>cat. CHR '':'' \<notin> set cat) (reply_subcategories utf8 (subq (qs ! i))) \<noteq> []"
      using that(4,5) by (auto simp: filter_empty_conv)
    with more that(1,2,3) have "Suc i < length qs" by simp
    with step x show ?thesis by simp
  qed
  have known: "set (qs ! Suc i) \<subseteq> tr" if "Suc i < length qs" for i
  proof -
    from that step
    have "set (qs ! Suc i) \<subseteq> set (reply_subcategories utf8 (subq (qs ! i)))" by auto
    moreover from that have "qs ! i \<in> set qs" by simp
    ultimately show ?thesis unfolding tree by blast
  qed
  show ?thesis
    unfolding qs_def [symmetric] tr_def [symmetric]
    using chain again known by blast
qed

text \<open>
  Claim C2 on an example: \<open>A\<close> has the subcategories \<open>B\<close> and \<open>Portal:X\<close>, and \<open>B\<close> has
  the subcategory \<open>A\<close>.  The colon-free part of each reply is the next frontier; \<open>A\<close>,
  in the set from the start, is submitted again at depth 2.
\<close>

theorem expand_category_query_chain_witness:
  "queried (snd (expand_category (\<lambda>depth. True)
       (\<lambda>q. Rows (if ''A'' \<in> set q then [title_row ''B'', title_row ''Portal:X''] else [title_row ''A'']))
       Some ''A''))
     = [[''A''], [''B''], [''A'']]
   \<and> query_chain (\<lambda>depth. True)
       (\<lambda>q. Rows (if ''A'' \<in> set q then [title_row ''B'', title_row ''Portal:X''] else [title_row ''A'']))
       Some [''A''] 0 [[''A''], [''B''], [''A'']]"
proof -
  have run: "queried (snd (expand_category (\<lambda>depth. True)
       (\<lambda>q. Rows (if ''A'' \<in> set q then [title_row ''B'', title_row ''Portal:X''] else [title_row ''A'']))
       Some ''A''))
     = [[''A''], [''B''], [''A'']]"
    by (simp add: expand_category_def find_all_subcategories.simps MAX_DEPTH_def
        subcategory_title_def title_row_def str_replace_def Let_def)
  show ?thesis
    using expand_category_query_chain
      [of "\<lambda>depth. True"
          "\<lambda>q. Rows (if ''A'' \<in> set q then [title_row ''B'', title_row ''Portal:X''] else [title_row ''A''])"
          Some "''A''"]
    by (simp only: run)
qed

text \<open>
  Claim C2 as stated fails: when the category \<open>A\<close> is a subcategory of itself, the name
  \<open>A\<close>, in the set from the start, is submitted at every one of the three levels.
\<close>

theorem expand_category_requeries:
  "queried (snd (expand_category (\<lambda>depth. True) (\<lambda>q. Rows [title_row ''A'']) Some ''A''))
     = [[''A''], [''A''], [''A'']]
   \<and> ''A'' \<in> tree \<lparr>tree = {str_replace CHR '' '' CHR ''_'' ''A''}, queried = [], logged = 0\<rparr>
   \<and> \<not> distinct (concat (queried (snd (expand_category (\<lambda>depth. True) (\<lambda>q. Rows [title_row ''A''])
          Some ''A''))))"
  by (simp add: expand_category_def find_all_subcategories.simps MAX_DEPTH_def
      subcategory_title_def title_row_def str_replace_def Let_def)

text \<open>The request, by the outcome of the expansion.\<close>

lemma find_articles_raises:
  "fst (expand_category connect subq utf8 category) = Some e \<Longrightarrow>
   find_articles connect subq connection articles_query iabot_query utf8 sample list_set list_tree category
     = Inl e"
  by (cases "expand_category connect subq utf8 category") (simp add: find_articles_def)

lemma find_articles_goes_on:
  "fst (expand_category connect subq utf8 category) = None \<Longrightarrow>
   find_articles connect subq connection articles_query iabot_query utf8 sample list_set list_tree category
     = find_tagged_articles connection articles_query iabot_query utf8 sample list_set
         (list_tree (tree (snd (expand_category connect subq utf8 category))))"
  by (cases "expand_category connect subq utf8 category") (simp add: find_articles_def)

text \<open>The set after an expansion whose last submitted frontier had its fetch fail.\<close>

lemma expand_category_tree_after_failure:
  assumes last: "last (queried (snd (expand_category connect subq utf8 category))) = f"
    and ne: "queried (snd (expand_category connect subq utf8 category)) \<noteq> []"
    and fails: "fetch_fails utf8 (subq f)"
  shows "tree (snd (expand_category connect subq utf8 category))
     = insert (str_replace CHR '' '' CHR ''_'' category)
         (\<Union>q \<in> set (butlast (queried (snd (expand_category connect subq utf8 category)))).
            set (reply_subcategories utf8 (subq q)))"
proof -
  define qs where "qs = queried (snd (expand_category connect subq utf8 category))"
  from find_all_subcategories_run
    [of connect subq utf8 "[category]"
        "\<lparr>tree = {str_replace CHR '' '' CHR ''_'' category}, queried = [], logged = 0\<rparr>" 0]
  have tree: "tree (snd (expand_category connect subq utf8 category))
      = {str_replace CHR '' '' CHR ''_'' category}
          \<union> (\<Union>q \<in> set qs. set (reply_subcategories utf8 (subq q)))"
    by (auto simp: expand_category_def qs_def)
  from ne last have "qs = butlast qs @ [f]"
    unfolding qs_def by (metis append_butlast_last_id)
  then have "set qs = insert f (set (butlast qs))"
    by (metis Un_insert_right list.set(1) list.set(2) set_append sup_bot.right_neutral)
  moreover have "reply_subcategories utf8 (subq f) = []"
    using fails by (rule fetch_fails_no_subcategories)
  ultimately have "(\<Union>q \<in> set qs. set (reply_subcategories utf8 (subq q)))
      = (\<Union>q \<in> set (butlast qs). set (reply_subcategories utf8 (subq q)))"
    by simp
  with tree show ?thesis unfolding qs_def by simp
qed

text \<open>
  Claim C4, as the code has it.  First, one level that has a frontier to submit: a
  connection that does not open and a query that raises in \<open>execute\<close> or \<open>commit\<close> end
  the call with the exception (nothing was submitted in the first case); a fetch that
  raises, or a row whose title is missing or does not decode, is caught: one error is
  logged, the call returns without an exception, the set is what it was, and nothing
  more is submitted; otherwise the call is the call of the next level, whose exception
  is its own.  Then the request: an exception of the expansion ends \<open>find_articles\<close>,
  and without one it goes on to \<open>_find_tagged_articles\<close> with the set.  Last, the same
  for the frontier of any level \<open>k\<close> of the expansion that \<open>find_articles\<close> starts.  It
  is the frontier submitted at that level, unless the connection does not open, when
  the \<open>k\<close> frontiers of the levels before are all that was submitted.  A
  failure to connect or execute there ends \<open>find_articles\<close> with the exception; a
  failure to fetch there is logged once and not raised, \<open>k + 1\<close> frontiers have been
  submitted, the set is the root with the subcategories of the levels before, and
  \<open>find_articles\<close> goes on with it.
\<close>

theorem fetch_failure_not_raised:
  "(depth < MAX_DEPTH \<and> frontier = filter (\<lambda>cat. CHR '':'' \<notin> set cat) categories \<and> frontier \<noteq> [] \<longrightarrow>
       (\<not> connect depth \<longrightarrow>
          find_all_subcategories connect subq utf8 categories st depth = (Some ConnectFailed, st))
     \<and> (connect depth \<and> subq frontier = ExecuteError \<longrightarrow>
          find_all_subcategories connect subq utf8 categories st depth
            = (Some ExecuteFailed, st\<lparr>queried := queried st @ [frontier]\<rparr>))
     \<and> (connect depth \<and> fetch_fails utf8 (subq frontier) \<longrightarrow>
          find_all_subcategories connect subq utf8 categories st depth
            = (None, st\<lparr>queried := queried st @ [frontier], logged := logged st + 1\<rparr>))
     \<and> (connect depth \<and> subq frontier \<noteq> ExecuteError \<and> \<not> fetch_fails utf8 (subq frontier) \<longrightarrow>
          find_all_subcategories connect subq utf8 categories st depth
            = find_all_subcategories connect subq utf8 (reply_subcategories utf8 (subq frontier))
                (st\<lparr>queried := queried st @ [frontier],
                    tree := tree st \<union> set (reply_subcategories utf8 (subq frontier))\<rparr>) (Suc depth)))
   \<and> (\<forall>e. fst (expand_category connect subq utf8 category) = Some e \<longrightarrow>
         find_articles connect subq connection articles_query iabot_query utf8 sample list_set list_tree category
           = Inl e)
   \<and> (fst (expand_category connect subq utf8 category) = None \<longrightarrow>
         find_articles connect subq connection articles_query iabot_query utf8 sample list_set list_tree category
           = find_tagged_articles connection articles_query iabot_query utf8 sample list_set
               (list_tree (tree (snd (expand_category connect subq utf8 category)))))
   \<and> (\<forall>k f. frontier_at connect subq utf8 [category] 0 k = Some f \<longrightarrow>
         (connect k \<longrightarrow>
            k < length (queried (snd (expand_category connect subq utf8 category)))
          \<and> queried (snd (expand_category connect subq utf8 category)) ! k = f)
       \<and> (\<not> connect k \<longrightarrow>
            length (queried (snd (expand_category connect subq utf8 category))) = k)
       \<and> (\<not> connect k \<longrightarrow>
            find_articles connect subq connection articles_query iabot_query utf8 sample list_set list_tree category
              = Inl ConnectFailed)
       \<and> (connect k \<and> subq f = ExecuteError \<longrightarrow>
            find_articles connect subq connection articles_query iabot_query utf8 sample list_set list_tree category
              = Inl ExecuteFailed)
       \<and> (connect k \<and> fetch_fails utf8 (subq f) \<longrightarrow>
            fst (expand_category connect subq utf8 category) = None
          \<and> length (queried (snd (expand_category connect subq utf8 category))) = Suc k
          \<and> last (queried (snd (expand_category connect subq utf8 category))) = f
          \<and> logged (snd (expand_category connect subq utf8 category)) = 1
          \<and> tree (snd (expand_category connect subq utf8 category))
              = insert (str_replace CHR '' '' CHR ''_'' category)
                  (\<Union>q \<in> set (butlast (queried (snd (expand_category connect subq utf8 category)))).
                     set (reply_subcategories utf8 (subq q)))
          \<and> find_articles connect subq connection articles_query iabot_query utf8 sample list_set list_tree category
              = find_tagged_articles connection articles_query iabot_query utf8 sample list_set
                  (list_tree (tree (snd (expand_category connect subq utf8 category))))))"
proof (intro conjI allI impI)
  assume "depth < MAX_DEPTH \<and> frontier = filter (\<lambda>cat. CHR '':'' \<notin> set cat) categories \<and> frontier \<noteq> []"
    and "\<not> connect depth"
  then show "find_all_subcategories connect subq utf8 categories st depth = (Some ConnectFailed, st)"
    by (intro find_all_subcategories_connect_fails) auto
next
  assume "depth < MAX_DEPTH \<and> frontier = filter (\<lambda>cat. CHR '':'' \<notin> set cat) categories \<and> frontier \<noteq> []"
    and "connect depth \<and> subq frontier = ExecuteError"
  then show "find_all_subcategories connect subq utf8 categories st depth
            = (Some ExecuteFailed, st\<lparr>queried := queried st @ [frontier]\<rparr>)"
    by (intro find_all_subcategories_execute_fails) auto
next
  assume "depth < MAX_DEPTH \<and> frontier = filter (\<lambda>cat. CHR '':'' \<notin> set cat) categories \<and> frontier \<noteq> []"
    and "connect depth \<and> fetch_fails utf8 (subq frontier)"
  then show "find_all_subcategories connect subq utf8 categories st depth
            = (None, st\<lparr>queried := queried st @ [frontier], logged := logged st + 1\<rparr>)"
    by (intro find_all_subcategories_fetch_fails) auto
next
  assume "depth < MAX_DEPTH \<and> frontier = filter (\<lambda>cat. CHR '':'' \<notin> set cat) categories \<and> frontier \<noteq> []"
    and "connect depth \<and> subq frontier \<noteq> ExecuteError \<and> \<not> fetch_fails utf8 (subq frontier)"
  then show "find_all_subcategories connect subq utf8 categories st depth
            = find_all_subcategories connect subq utf8 (reply_subcategories utf8 (subq frontier))
                (st\<lparr>queried := queried st @ [frontier],
                    tree := tree st \<union> set (reply_subcategories utf8 (subq frontier))\<rparr>) (Suc depth)"
    by (intro find_all_subcategories_descends) auto
next
  fix e assume "fst (expand_category connect subq utf8 category) = Some e"
  then show "find_articles connect subq connection articles_query iabot_query utf8 sample list_set list_tree category
           = Inl e"
    by (rule find_articles_raises)
next
  assume "fst (expand_category connect subq utf8 category) = None"
  then show "find_articles connect subq connection articles_query iabot_query utf8 sample list_set list_tree category
           = find_tagged_articles connection articles_query iabot_query utf8 sample list_set
               (list_tree (tree (snd (expand_category connect subq utf8 category))))"
    by (rule find_articles_goes_on)
next
  fix k f assume fr: "frontier_at connect subq utf8 [category] 0 k = Some f" and c: "connect k"
  from frontier_at_log [OF fr,
      of "\<lparr>tree = {str_replace CHR '' '' CHR ''_'' category}, queried = [], logged = 0\<rparr>"] c
  show "k < length (queried (snd (expand_category connect subq utf8 category)))"
    and "queried (snd (expand_category connect subq utf8 category)) ! k = f"
    by (auto simp: expand_category_def)
next
  fix k f assume fr: "frontier_at connect subq utf8 [category] 0 k = Some f" and c: "\<not> connect k"
  from frontier_at_log [OF fr,
      of "\<lparr>tree = {str_replace CHR '' '' CHR ''_'' category}, queried = [], logged = 0\<rparr>"] c
  show "length (queried (snd (expand_category connect subq utf8 category))) = k"
    by (auto simp: expand_category_def)
next
  fix k f assume fr: "frontier_at connect subq utf8 [category] 0 k = Some f" and "\<not> connect k"
  then have "fst (expand_category connect subq utf8 category) = Some ConnectFailed"
    unfolding expand_category_def by (intro frontier_connect_fails) auto
  then show "find_articles connect subq connection articles_query iabot_query utf8 sample list_set list_tree category
              = Inl ConnectFailed"
    by (rule find_articles_raises)
next
  fix k f assume fr: "frontier_at connect subq utf8 [category] 0 k = Some f"
    and "connect k \<and> subq f = ExecuteError"
  then have "fst (expand_category connect subq utf8 category) = Some ExecuteFailed"
    unfolding expand_category_def by (intro frontier_execute_fails) auto
  then show "find_articles connect subq connection articles_query iabot_query utf8 sample list_set list_tree category
              = Inl ExecuteFailed"
    by (rule find_articles_raises)
next
  fix k f assume fr: "frontier_at connect subq utf8 [category] 0 k = Some f"
    and cf: "connect k \<and> fetch_fails utf8 (subq f)"
  from cf have c: "connect (0 + k)" and ff: "fetch_fails utf8 (subq f)" by simp_all
  from frontier_fetch_fails [OF fr c ff,
      of "\<lparr>tree = {str_replace CHR '' '' CHR ''_'' category}, queried = [], logged = 0\<rparr>"]
  have none: "fst (expand_category connect subq utf8 category) = None"
    and len: "length (queried (snd (expand_category connect subq utf8 category))) = Suc k"
    and last: "last (queried (snd (expand_category connect subq utf8 category))) = f"
    and lg: "logged (snd (expand_category connect subq utf8 category)) = 1"
    by (auto simp: expand_category_def)
  from len have ne: "queried (snd (expand_category connect subq utf8 category)) \<noteq> []" by auto
  show "fst (expand_category connect subq utf8 category) = None" by (rule none)
  show "length (queried (snd (expand_category connect subq utf8 category))) = Suc k" by (rule len)
  show "last (queried (snd (expand_category connect subq utf8 category))) = f" by (rule last)
  show "logged (snd (expand_category connect subq utf8 category)) = 1" by (rule lg)
  show "tree (snd (expand_category connect subq utf8 category))
              = insert (str_replace CHR '' '' CHR ''_'' category)
                  (\<Union>q \<in> set (butlast (queried (snd (expand_category connect subq utf8 category)))).
                     set (reply_subcategories utf8 (subq q)))"
    using last ne ff by (rule expand_category_tree_after_failure)
  show "find_articles connect subq connection articles_query iabot_query utf8 sample list_set list_tree category
              = find_tagged_articles connection articles_query iabot_query utf8 sample list_set
                  (list_tree (tree (snd (expand_category connect subq utf8 category))))"
    using none by (rule find_articles_goes_on)
qed

text \<open>
  Claim C4 on an example: the query for \<open>[A]\<close> returns the subcategory \<open>B\<close>, and the
  fetch fails for every other frontier.  The frontier of depth 1 is \<open>[B]\<close>; its failure
  is logged, the set stays \<open>{A, B}\<close>, and the request completes.
\<close>

theorem fetch_failure_not_raised_witness:
  "frontier_at (\<lambda>depth. True) (\<lambda>q. if q = [''A''] then Rows [title_row ''B''] else FetchError) Some
       [''A''] 0 1 = Some [''B'']
   \<and> fetch_fails Some ((\<lambda>q. if q = [''A''] then Rows [title_row ''B''] else FetchError) [''B''])
   \<and> expand_category (\<lambda>depth. True) (\<lambda>q. if q = [''A''] then Rows [title_row ''B''] else FetchError)
        Some ''A''
     = (None, \<lparr>tree = {''A'', ''B''}, queried = [[''A''], [''B'']], logged = 1\<rparr>)
   \<and> find_articles (\<lambda>depth. True) (\<lambda>q. if q = [''A''] then Rows [title_row ''B''] else FetchError)
        True (\<lambda>categories tags. Rows [row_of ''P'' (PyBytes ''Veraltet'')]) (\<lambda>categories catalog. Rows [])
        Some first_k remdups sorted_list_of_set ''A''
     = find_tagged_articles True (\<lambda>categories tags. Rows [row_of ''P'' (PyBytes ''Veraltet'')])
         (\<lambda>categories catalog. Rows []) Some first_k remdups [''A'', ''B'']
   \<and> find_tagged_articles True (\<lambda>categories tags. Rows [row_of ''P'' (PyBytes ''Veraltet'')])
         (\<lambda>categories catalog. Rows []) Some first_k remdups [''A'', ''B'']
     = Inr ([\<lparr>page = ''P'', problems = [PyStr ''Veraltet'']\<rparr>], False)"
proof -
  let ?subq = "\<lambda>q. if q = [''A''] then Rows [title_row ''B''] else FetchError"
  have fr: "frontier_at (\<lambda>depth. True) ?subq Some [''A''] 0 1 = Some [''B'']"
    by (simp add: MAX_DEPTH_def reply_subcategories_def subcategory_title_def title_row_def Let_def)
  have ff: "fetch_fails Some (?subq [''B''])"
    by (simp add: fetch_fails_def)
  have run: "expand_category (\<lambda>depth. True) ?subq Some ''A''
     = (None, \<lparr>tree = {''A'', ''B''}, queried = [[''A''], [''B'']], logged = 1\<rparr>)"
    by (simp add: expand_category_def find_all_subcategories.simps MAX_DEPTH_def
        subcategory_title_def title_row_def str_replace_def Let_def insert_commute)
  have tagged: "find_tagged_articles True (\<lambda>categories tags. Rows [row_of ''P'' (PyBytes ''Veraltet'')])
         (\<lambda>categories catalog. Rows []) Some first_k remdups [''A'', ''B'']
     = Inr ([\<lparr>page = ''P'', problems = [PyStr ''Veraltet'']\<rparr>], False)"
    by (simp add: find_tagged_articles_def finalize_def NUM_def str_replace_def)
  have sorted: "sorted_list_of_set {''A'', ''B''} = [''A'', ''B'']"
    by code_simp
  from fetch_failure_not_raised
    [of 0 "[]" "[]" "\<lambda>depth. True" ?subq Some
        "\<lparr>tree = {}, queried = [], logged = 0\<rparr>" "''A''" True
        "\<lambda>categories tags. Rows [row_of ''P'' (PyBytes ''Veraltet'')]" "\<lambda>categories catalog. Rows []"
        first_k remdups sorted_list_of_set]
  have "\<forall>k f. frontier_at (\<lambda>depth. True) ?subq Some [''A''] 0 k = Some f \<longrightarrow>
       (True \<and> fetch_fails Some (?subq f) \<longrightarrow>
          find_articles (\<lambda>depth. True) ?subq True
              (\<lambda>categories tags. Rows [row_of ''P'' (PyBytes ''Veraltet'')]) (\<lambda>categories catalog. Rows [])
              Some first_k remdups sorted_list_of_set ''A''
            = find_tagged_articles True (\<lambda>categories tags. Rows [row_of ''P'' (PyBytes ''Veraltet'')])
                (\<lambda>categories catalog. Rows []) Some first_k remdups
                (sorted_list_of_set (tree (snd (expand_category (\<lambda>depth. True) ?subq Some ''A'')))))"
    by blast
  with fr ff
  have "find_articles (\<lambda>depth. True) ?subq True
              (\<lambda>categories tags. Rows [row_of ''P'' (PyBytes ''Veraltet'')]) (\<lambda>categories catalog. Rows [])
              Some first_k remdups sorted_list_of_set ''A''
            = find_tagged_articles True (\<lambda>categories tags. Rows [row_of ''P'' (PyBytes ''Veraltet'')])
                (\<lambda>categories catalog. Rows []) Some first_k remdups
                (sorted_list_of_set (tree (snd (expand_category (\<lambda>depth. True) ?subq Some ''A''))))"
    by blast
  then have "find_articles (\<lambda>depth. True) ?subq True
              (\<lambda>categories tags. Rows [row_of ''P'' (PyBytes ''Veraltet'')]) (\<lambda>categories catalog. Rows [])
              Some first_k remdups sorted_list_of_set ''A''
            = find_tagged_articles True (\<lambda>categories tags. Rows [row_of ''P'' (PyBytes ''Veraltet'')])
                (\<lambda>categories catalog. Rows []) Some first_k remdups [''A'', ''B'']"
    by (simp only: run snd_conv expansion.simps sorted)
  with fr ff run tagged show ?thesis by (intro conjI)
qed

text \<open>
  Claim C4 as stated fails: a subcategory query that raises in \<open>execute\<close>, at depth 0
  or below two levels that returned rows, and a connection that does not open at
  depth 1, are not caught, and \<open>find_articles\<close> ends with the exception.
\<close>

theorem query_failure_is_raised:
  "find_articles (\<lambda>depth. True) (\<lambda>q. ExecuteError) True
      (\<lambda>categories tags. Rows []) (\<lambda>categories catalog. Rows [])
      Some first_k remdups sorted_list_of_set ''A''
     = Inl ExecuteFailed
   \<and> find_articles (\<lambda>depth. True)
      (\<lambda>q. if q = [''A''] then Rows [title_row ''B''] else if q = [''B''] then Rows [title_row ''C'']
            else ExecuteError) True
      (\<lambda>categories tags. Rows []) (\<lambda>categories catalog. Rows [])
      Some first_k remdups sorted_list_of_set ''A''
     = Inl ExecuteFailed
   \<and> find_articles (\<lambda>depth. depth \<noteq> 1) (\<lambda>q. Rows [title_row ''B'']) True
      (\<lambda>categories tags. Rows []) (\<lambda>categories catalog. Rows [])
      Some first_k remdups sorted_list_of_set ''A''
     = Inl ConnectFailed"
  by (simp add: find_articles_def expand_category_def find_all_subcategories.simps MAX_DEPTH_def
      subcategory_title_def title_row_def Let_def)

text \<open>
  Claim C6 fails on the code: for the category \<open>19. Jahrhundert\<close> the set is seeded
  with \<open>19._Jahrhundert\<close>, and the frontier submitted at depth 0 is the name as it
  was given, with the space.
\<close>

theorem expand_category_submits_raw_name:
  "expand_category (\<lambda>depth. True) (\<lambda>q. Rows []) Some ''19. Jahrhundert''
     = (None, \<lparr>tree = {''19._Jahrhundert''}, queried = [[''19. Jahrhundert'']], logged = 0\<rparr>)
   \<and> hd (queried (snd (expand_category (\<lambda>depth. True) (\<lambda>q. Rows []) Some ''19. Jahrhundert'')))
       \<noteq> [str_replace CHR '' '' CHR ''_'' ''19. Jahrhundert'']"
  by (simp add: expand_category_def find_all_subcategories.simps MAX_DEPTH_def
      str_replace_def Let_def)

text \<open>
  Claim C7: whatever the subcategory query returns, the set the expansion leaves
  contains the normalised root.
\<close>

theorem expand_category_contains_root:
  "str_replace CHR '' '' CHR ''_'' category \<in> tree (snd (expand_category connect subq utf8 category))"
  using find_all_subcategories_tree_mono
    [of "\<lparr>tree = {str_replace CHR '' '' CHR ''_'' category}, queried = [], logged = 0\<rparr>"
        connect subq utf8 "[category]" 0]
  by (simp add: expand_category_def)

text \<open>
  Claim C7 on an example: a category that is its own subcategory and has a
  namespace-qualified one.
\<close>

theorem expand_category_contains_root_witness:
  "tree (snd (expand_category (\<lambda>depth. True) (\<lambda>q. Rows [title_row ''A_b'', title_row ''Portal:X''])
       Some ''A b''))
     = {''A_b'', ''Portal:X''}
   \<and> ''A_b'' \<in> tree (snd (expand_category (\<lambda>depth. True)
       (\<lambda>q. Rows [title_row ''A_b'', title_row ''Portal:X'']) Some ''A b''))"
proof -
  have run: "tree (snd (expand_category (\<lambda>depth. True)
       (\<lambda>q. Rows [title_row ''A_b'', title_row ''Portal:X'']) Some ''A b''))
     = {''A_b'', ''Portal:X''}"
    by (simp add: expand_category_def find_all_subcategories.simps MAX_DEPTH_def
        subcategory_title_def title_row_def str_replace_def Let_def insert_commute)
  show ?thesis
    using expand_category_contains_root
      [of "''A b''" "\<lambda>depth. True" "\<lambda>q. Rows [title_row ''A_b'', title_row ''Portal:X'']" Some]
    by (simp add: run str_replace_def)
qed

end
